theory Spec2Isabelle
  imports Main "HOL-Library.Word"
begin

unbundle bit_operations_syntax

section \<open>Data model of the HDLC decoder (pd.py)\<close>

text \<open>
  The Python exceptions the decoding path can raise: \<open>ChannelError\<close> is the decoder's own
  (line 63), the others are what the interpreter raises for \<open>'%d' % None\<close>, for
  \<open>rxbits[0]\<close> on an empty list and for a shift by a negative count.
\<close>

datatype py_error = ChannelError | TypeError | IndexError | ValueError

text \<open>
  The values \<open>have_en\<close> takes: \<open>None\<close> after \<open>reset\<close>, the bool returned by
  \<open>has_channel\<close>, then the int \<open>len(wait_cond)\<close>. Only its truth value is read.
\<close>

datatype py_val = PyNone | PyBool bool | PyInt int

fun truthy :: "py_val \<Rightarrow> bool" where
  "truthy PyNone = False"
| "truthy (PyBool b) = b"
| "truthy (PyInt n) = (n \<noteq> 0)"

text \<open>
  Records handed to the host by \<open>self.put(ss, es, output, data)\<close>: on \<open>out_ann\<close> the data is
  \<open>[annotation class, [texts]]\<close>, on \<open>out_python\<close> it is a packet. The only packet the
  code ever builds is \<open>['CS-CHANGE', None, None]\<close> (line 231).
\<close>

datatype py_packet = CS_CHANGE "int option" "int option"

datatype out_record =
    Ann int int nat "string list"
  | Py int int py_packet

text \<open>Line 66: \<open>ann_bit, ann_data, ann_data_type, ann_warning, ann_transfer = range(5)\<close>.\<close>

definition ann_bit :: nat where "ann_bit = 0"
definition ann_data :: nat where "ann_data = 1"
definition ann_data_type :: nat where "ann_data_type = 2"
definition ann_warning :: nat where "ann_warning = 3"
definition ann_transfer :: nat where "ann_transfer = 4"

text \<open>
  The instance attributes. \<open>samplenum\<close> and \<open>matched0\<close> (the entry \<open>self.matched[0]\<close>, which
  belongs to the clock condition \<open>{0: 'e'}\<close>, always the first of \<open>wait_cond\<close>) are written
  by the host's \<open>wait\<close>; \<open>en_polarity\<close> and \<open>cpol\<close> are \<open>self.options\<close>; the rest are the
  fields of \<open>reset\<close> (lines 110-123). An entry of \<open>rxbits\<close> is the two-element list
  \<open>[data, samplenum]\<close>.
\<close>

record decoder =
  samplenum :: int
  matched0 :: bool
  en_polarity :: string
  cpol :: int
  samplerate :: "int option"
  bitcount :: int
  rxdata :: int
  rxbits :: "(int \<times> int) list"
  rxbytes :: "(int \<times> int \<times> int) list"
  prev_bit :: "int option"
  ss_prev_clock :: int
  ss_prev_false :: int
  flag_found :: bool
  ss_flag :: int
  have_en :: py_val
  one_count :: int
  prev_one_count :: int

text \<open>One delivery of the host's \<open>wait\<close>: the sample number, whether the clock condition
  matched, and the pin levels \<open>(clk, data, en)\<close>.\<close>

record sample =
  s_samplenum :: int
  s_matched0 :: bool
  s_clk :: int
  s_data :: int
  s_en :: int

section \<open>String formatting\<close>

definition digit_char :: "nat \<Rightarrow> char" where
  "digit_char d = ''0123456789ABCDEF'' ! d"

fun dec_digits :: "nat \<Rightarrow> string" where
  "dec_digits n = (if n < 10 then [digit_char n] else dec_digits (n div 10) @ [digit_char (n mod 10)])"

fun hex_digits :: "nat \<Rightarrow> string" where
  "hex_digits n = (if n < 16 then [digit_char n] else hex_digits (n div 16) @ [digit_char (n mod 16)])"

declare dec_digits.simps [simp del]
declare hex_digits.simps [simp del]

text \<open>\<open>'%d' % v\<close> for an int \<open>v\<close>.\<close>

definition fmt_d :: "int \<Rightarrow> string" where
  "fmt_d v = (if v < 0 then CHR ''-'' # dec_digits (nat (- v)) else dec_digits (nat v))"

text \<open>\<open>'%02X' % v\<close>: upper-case hexadecimal, zero-padded to two characters (the sign counts).\<close>

definition fmt_02X :: "int \<Rightarrow> string" where
  "fmt_02X v =
     (let body = (if v < 0 then CHR ''-'' # hex_digits (nat (- v)) else hex_digits (nat v))
      in replicate (2 - length body) CHR ''0'' @ body)"

section \<open>The decoder's operations\<close>

text \<open>\<open>reset\<close>, lines 110-123.\<close>

definition reset :: "decoder \<Rightarrow> decoder" where
  "reset s = s\<lparr>samplerate := None, bitcount := 0, rxdata := 0, rxbits := [], rxbytes := [],
               prev_bit := None, ss_prev_clock := - 1, ss_prev_false := - 1,
               flag_found := False, ss_flag := - 1, have_en := PyNone,
               one_count := 0, prev_one_count := 0\<rparr>"

text \<open>The instance after \<open>__init__\<close> (which calls \<open>reset\<close>), with the default options
  \<open>en_polarity = 'active-high'\<close> and \<open>cpol = 1\<close> (lines 84-89).\<close>

definition Decoder_init :: decoder where
  "Decoder_init =
     \<lparr>samplenum = 0, matched0 = False, en_polarity = ''active-high'', cpol = 1,
      samplerate = None, bitcount = 0, rxdata = 0, rxbits = [], rxbytes = [],
      prev_bit = None, ss_prev_clock = - 1, ss_prev_false = - 1,
      flag_found = False, ss_flag = - 1, have_en = PyNone,
      one_count = 0, prev_one_count = 0\<rparr>"

text \<open>\<open>en_asserted\<close>, lines 133-135.\<close>

definition en_asserted :: "decoder \<Rightarrow> int \<Rightarrow> bool" where
  "en_asserted s en =
     (let active_low = (en_polarity s = ''active-low'')
      in if active_low then en = 0 else en = 1)"

text \<open>\<open>shift_bit\<close>, lines 153-157. Python raises ValueError for a negative shift count.\<close>

definition shift_bit :: "int \<Rightarrow> decoder \<Rightarrow> py_error + decoder" where
  "shift_bit data s =
     (if flag_found s then
        (if bitcount s < 0 then Inl ValueError
         else Inr (s\<lparr>rxdata := rxdata s OR push_bit (nat (bitcount s)) data,
                     rxbits := rxbits s @ [(data, samplenum s)],
                     bitcount := bitcount s + 1\<rparr>))
      else Inr s)"

text \<open>
  Sequencing of two steps that both put records and may raise: the records put before a
  raise stay put, the state is lost.
\<close>

definition then_do ::
  "out_record list \<times> (py_error + 'a) \<Rightarrow> ('a \<Rightarrow> out_record list \<times> (py_error + 'b)) \<Rightarrow>
   out_record list \<times> (py_error + 'b)" where
  "then_do m f =
     (case m of
        (o1, Inl e) \<Rightarrow> (o1, Inl e)
      | (o1, Inr a) \<Rightarrow> (case f a of (o2, r) \<Rightarrow> (o1 @ o2, r)))"

text \<open>\<open>handle_bit\<close>, lines 162-165 (\<open># Displays bit\<close>): \<open>'%d' % None\<close> raises TypeError.\<close>

definition display_bit :: "int \<Rightarrow> decoder \<Rightarrow> out_record list \<times> (py_error + decoder)" where
  "display_bit data s =
     (if ss_prev_clock s \<noteq> - 1 then
        (case prev_bit s of
           None \<Rightarrow> ([], Inl TypeError)
         | Some b \<Rightarrow>
             ([Ann (ss_prev_clock s) (samplenum s) ann_bit [fmt_d b]],
              Inr (s\<lparr>ss_prev_clock := samplenum s, prev_bit := Some data\<rparr>)))
      else ([], Inr (s\<lparr>ss_prev_clock := samplenum s, prev_bit := Some data\<rparr>)))"

text \<open>\<open>handle_bit\<close>, lines 167-171 (\<open>#Flag\<close>).\<close>

definition display_flag :: "decoder \<Rightarrow> out_record list \<times> (py_error + decoder)" where
  "display_flag s =
     (if prev_one_count s = 6 then
        ([Ann (ss_flag s) (samplenum s) ann_data_type [''FLAG'']], Inr s)
      else if prev_one_count s > 6 then
        ([Ann (ss_flag s) (samplenum s) ann_data_type [''ABORT'']], Inr s)
      else ([], Inr s))"

text \<open>\<open>handle_bit\<close>, lines 173-179 (\<open>#Display previsous data\<close>): \<open>rxbits[0]\<close> raises
  IndexError on the empty list.\<close>

definition display_data :: "decoder \<Rightarrow> out_record list \<times> (py_error + decoder)" where
  "display_data s =
     (if bitcount s = 8 then
        (case rxbits s of
           [] \<Rightarrow> ([], Inl IndexError)
         | b # _ \<Rightarrow>
             ([Ann (snd b) (samplenum s) ann_data [fmt_02X (rxdata s)]],
              Inr (s\<lparr>rxdata := 0, bitcount := 0, rxbits := []\<rparr>)))
      else ([], Inr s))"

text \<open>\<open>handle_bit\<close>, lines 181-199 (\<open>#Count number of 1\<close>).\<close>

definition count_ones :: "int \<Rightarrow> decoder \<Rightarrow> py_error + decoder" where
  "count_ones data s =
     (if data = 1 then
        (case shift_bit data s of
           Inl e \<Rightarrow> Inl e
         | Inr s1 \<Rightarrow> Inr (s1\<lparr>one_count := one_count s1 + 1\<rparr>))
      else
        (let s1 = (if one_count s > 5
                   then s\<lparr>ss_flag := ss_prev_false s, flag_found := False\<rparr> else s)
         in case (if one_count s1 = 6 then
                    Inr (s1\<lparr>flag_found := True, rxdata := 0, bitcount := 0, rxbits := []\<rparr>)
                  else if one_count s1 < 5 then shift_bit data s1
                  else Inr s1) of
              Inl e \<Rightarrow> Inl e
            | Inr s2 \<Rightarrow>
                Inr (s2\<lparr>prev_one_count := one_count s2, one_count := 0,
                        ss_prev_false := samplenum s2\<rparr>)))"

text \<open>\<open>handle_bit\<close>, lines 160-199: the four blocks in order.\<close>

definition handle_bit :: "int \<Rightarrow> int \<Rightarrow> int \<Rightarrow> decoder \<Rightarrow> out_record list \<times> (py_error + decoder)" where
  "handle_bit clk data en s =
     then_do (display_bit data s) (\<lambda>s1.
     then_do (display_flag s1) (\<lambda>s2.
     then_do (display_data s2) (\<lambda>s3. ([], count_ones data s3))))"

text \<open>\<open>find_clk_edge\<close>, lines 202-220.\<close>

definition find_clk_edge ::
  "int \<Rightarrow> int \<Rightarrow> int \<Rightarrow> bool \<Rightarrow> decoder \<Rightarrow> out_record list \<times> (py_error + decoder)" where
  "find_clk_edge clk data en first s =
     (if truthy (have_en s) \<and> \<not> en_asserted s en then
        ([], Inr (s\<lparr>rxdata := 0, bitcount := 0, rxbits := [], rxbytes := [],
                    one_count := 0, ss_prev_clock := - 1\<rparr>))
      else if first \<or> \<not> matched0 s then ([], Inr s)
      else if cpol s \<noteq> clk then ([], Inr s)
      else handle_bit clk data en s)"

section \<open>The decode loop\<close>

text \<open>
  The host's \<open>wait\<close> stores the sample number and the match flags in the instance and
  returns the pins. The sample source is a finite list; when it is exhausted the call
  does not return and decoding ends.
\<close>

definition wait :: "sample \<Rightarrow> decoder \<Rightarrow> decoder" where
  "wait smp s = s\<lparr>samplenum := s_samplenum smp, matched0 := s_matched0 smp\<rparr>"

datatype outcome = EndOfInput decoder | Raised py_error

text \<open>One round of the \<open>while True\<close> loop, lines 249-250, on a delivered sample.\<close>

definition edge :: "sample \<Rightarrow> decoder \<Rightarrow> out_record list \<times> (py_error + decoder)" where
  "edge smp s = find_clk_edge (s_clk smp) (s_data smp) (s_en smp) False (wait smp s)"

text \<open>
  The \<open>while True\<close> loop, lines 248-250. The result is the records put, the number of calls
  of \<open>wait\<close> (the last one finds the input exhausted) and how the loop ended.
\<close>

fun decode_loop :: "sample list \<Rightarrow> decoder \<Rightarrow> out_record list \<times> nat \<times> outcome" where
  "decode_loop [] s = ([], 1, EndOfInput s)"
| "decode_loop (smp # rest) s =
     (case edge smp s of
        (out, Inl e) \<Rightarrow> (out, 1, Raised e)
      | (out, Inr s') \<Rightarrow>
          (case decode_loop rest s' of (out', w, oc) \<Rightarrow> (out @ out', Suc w, oc)))"

text \<open>Lines 236-239: \<open>wait_cond\<close> as a list of (channel, edge kind) dictionaries.\<close>

definition wait_cond0 :: "(nat \<times> char) list list" where
  "wait_cond0 = [[(0, CHR ''e'')]]"

text \<open>\<open>decode\<close>, lines 222-250; \<open>has_channel\<close> is the host's.\<close>

definition decode :: "(nat \<Rightarrow> bool) \<Rightarrow> sample list \<Rightarrow> decoder \<Rightarrow> out_record list \<times> nat \<times> outcome" where
  "decode has_channel samples s =
     (if \<not> has_channel 0 \<and> \<not> has_channel 1 then ([], 0, Raised ChannelError)
      else
        let s1 = s\<lparr>have_en := PyBool (has_channel 2)\<rparr>;
            out0 = (if \<not> truthy (have_en s1) then [Py 0 0 (CS_CHANGE None None)] else []);
            s2 = (if truthy (have_en s1)
                  then s1\<lparr>have_en := PyInt (int (length wait_cond0))\<rparr> else s1)
        in case samples of
             [] \<Rightarrow> (out0, 1, EndOfInput s2)
           | smp # rest \<Rightarrow>
               (case find_clk_edge (s_clk smp) (s_data smp) (s_en smp) True (wait smp s2) of
                  (out, Inl e) \<Rightarrow> (out0 @ out, 1, Raised e)
                | (out, Inr s3) \<Rightarrow>
                    (case decode_loop rest s3 of
                       (out', w, oc) \<Rightarrow> (out0 @ out @ out', Suc w, oc))))"

section \<open>Notions used to state the properties\<close>

text \<open>
  The register invariant: \<open>0 \<le> bitcount \<le> 8\<close>, \<open>bitcount == len(rxbits)\<close> and
  \<open>0 \<le> rxdata < 2 ** bitcount\<close>.
\<close>

definition reg_inv :: "decoder \<Rightarrow> bool" where
  "reg_inv s \<longleftrightarrow>
     0 \<le> bitcount s \<and> bitcount s \<le> 8 \<and> bitcount s = int (length (rxbits s)) \<and>
     0 \<le> rxdata s \<and> rxdata s < 2 ^ nat (bitcount s)"

text \<open>Once a bit has been displayed (\<open>ss_prev_clock\<close> is not -1), \<open>prev_bit\<close> is an int.\<close>

definition bit_inv :: "decoder \<Rightarrow> bool" where
  "bit_inv s \<longleftrightarrow> (ss_prev_clock s \<noteq> - 1 \<longrightarrow> prev_bit s \<noteq> None)"

definition well_formed :: "decoder \<Rightarrow> bool" where
  "well_formed s \<longleftrightarrow> reg_inv s \<and> bit_inv s"

text \<open>
  A qualifying edge: a sample delivered inside the loop that passes the three early
  returns of \<open>find_clk_edge\<close> (enable unwired or asserted, clock condition matched, clock
  level equal to \<open>cpol\<close>), so that \<open>handle_bit\<close> runs on it.
\<close>

definition qualifying :: "decoder \<Rightarrow> sample \<Rightarrow> bool" where
  "qualifying s smp \<longleftrightarrow>
     \<not> (truthy (have_en s) \<and> \<not> en_asserted s (s_en smp)) \<and> s_matched0 smp \<and> cpol s = s_clk smp"

text \<open>A sample on which \<open>find_clk_edge\<close> does the frame reset: enable wired and
  deasserted (line 204).\<close>

definition deasserted :: "decoder \<Rightarrow> sample \<Rightarrow> bool" where
  "deasserted s smp \<longleftrightarrow> truthy (have_en s) \<and> \<not> en_asserted s (s_en smp)"


fun is_data_ann :: "out_record \<Rightarrow> bool" where
  "is_data_ann (Ann ss es c txt) = (c = ann_data)"
| "is_data_ann (Py ss es p) = False"

fun is_py :: "out_record \<Rightarrow> bool" where
  "is_py (Ann ss es c txt) = False"
| "is_py (Py ss es p) = True"

text \<open>The FLAG and ABORT annotations, by their text.\<close>

fun is_type_ann :: "string \<Rightarrow> out_record \<Rightarrow> bool" where
  "is_type_ann t (Ann ss es c txt) = (c = ann_data_type \<and> txt = [t])"
| "is_type_ann t (Py ss es p) = False"

text \<open>Concrete inputs for the examples: a sample with the clock condition matched, and two
  channel wirings.\<close>

definition mk_sample :: "int \<Rightarrow> int \<Rightarrow> int \<Rightarrow> int \<Rightarrow> sample" where
  "mk_sample n c d e = \<lparr>s_samplenum = n, s_matched0 = True, s_clk = c, s_data = d, s_en = e\<rparr>"

definition wired_all :: "nat \<Rightarrow> bool" where
  "wired_all ch = True"

definition wired_clk_data :: "nat \<Rightarrow> bool" where
  "wired_clk_data ch = (ch < 2)"

definition wired_none :: "nat \<Rightarrow> bool" where
  "wired_none ch = False"

text \<open>The state in which the loop found its input exhausted, if it got that far.\<close>

fun final_state :: "out_record list \<times> nat \<times> outcome \<Rightarrow> decoder option" where
  "final_state (outs, w, EndOfInput s) = Some s"
| "final_state (outs, w, Raised e) = None"

text \<open>
  Example input: six 1 bits and a 0 (a flag), then the data bits 0, 0, 0, 1, 1, 1, 1, 1;
  every sample is a matched edge at clock level 1.
\<close>

definition flag_then_byte :: "sample list" where
  "flag_then_byte =
     [mk_sample 3 1 1 1, mk_sample 5 1 1 1, mk_sample 7 1 1 1, mk_sample 9 1 1 1,
      mk_sample 11 1 1 1, mk_sample 13 1 1 1, mk_sample 15 1 0 1,
      mk_sample 17 1 0 1, mk_sample 19 1 0 1, mk_sample 21 1 0 1, mk_sample 23 1 1 1,
      mk_sample 25 1 1 1, mk_sample 27 1 1 1, mk_sample 29 1 1 1, mk_sample 31 1 1 1]"

text \<open>The state the loop reaches from \<open>Decoder_init\<close> on the first seven samples of
  \<open>flag_then_byte\<close>, that is right after the flag.\<close>

definition after_flag :: decoder where
  "after_flag =
     \<lparr>samplenum = 15, matched0 = True, en_polarity = ''active-high'', cpol = 1,
      samplerate = None, bitcount = 0, rxdata = 0, rxbits = [], rxbytes = [],
      prev_bit = Some 0, ss_prev_clock = 15, ss_prev_false = 15,
      flag_found = True, ss_flag = - 1, have_en = PyNone,
      one_count = 0, prev_one_count = 6\<rparr>"

text \<open>The same state when the enable channel is wired: \<open>decode\<close> with every channel wired
  reaches it on a bootstrap sample followed by the first seven samples of
  \<open>flag_then_byte\<close>, all with enable at 1.\<close>

definition enabled_after_flag :: decoder where
  "enabled_after_flag = after_flag\<lparr>have_en := PyInt 1\<rparr>"

text \<open>
  Example input with the enable channel: a bootstrap sample with enable at 0, enable
  rising, the flag and the data bits of \<open>flag_then_byte\<close>, one more edge (on which the
  byte is put), and enable falling.
\<close>

definition enable_block :: "sample list" where
  "enable_block =
     mk_sample 0 0 0 0 # mk_sample 2 0 0 1 # flag_then_byte @
     [mk_sample 33 1 0 1, mk_sample 34 0 0 0]"

text \<open>
  A capture of a list of data bits as the host delivers it with the default options and
  the enable level at 1: for every bit a sample at clock level 0 and then the sampling
  edge at clock level 1, two sample numbers apart from the next bit.
\<close>

fun capture :: "int \<Rightarrow> int list \<Rightarrow> sample list" where
  "capture n [] = []"
| "capture n (b # bs) = mk_sample n 0 b 1 # mk_sample (n + 1) 1 b 1 # capture (n + 2) bs"

text \<open>The state the loop reaches from \<open>Decoder_init\<close> on all of \<open>flag_then_byte\<close>: a
  full byte is held and the last five bits were 1.\<close>

definition after_byte :: decoder where
  "after_byte =
     \<lparr>samplenum = 31, matched0 = True, en_polarity = ''active-high'', cpol = 1,
      samplerate = None, bitcount = 8, rxdata = 248,
      rxbits = [(0, 17), (0, 19), (0, 21), (1, 23), (1, 25), (1, 27), (1, 29), (1, 31)],
      rxbytes = [], prev_bit = Some 1, ss_prev_clock = 31, ss_prev_false = 21,
      flag_found = True, ss_flag = - 1, have_en = PyNone,
      one_count = 5, prev_one_count = 0\<rparr>"

text \<open>
  Example inputs with an enable gap, for \<open>decode\<close> with every channel wired; each starts
  with the bootstrap sample, and the gap is a sample with enable at 0 followed by one
  with enable back at 1, both at clock level 0.
  In \<open>gap_in_flag_run\<close> the bits are 0, 1, 1, 1, gap, 1, 1, 1, 0, 1.
  In \<open>gap_in_abort_run\<close> a flag is followed by 1, 1, 1, 1, gap, 1, 1, 1, 1, 0, 0.
  In \<open>gap_in_run_of_five\<close> a flag is followed by 1, 1, gap, 1, 1, 1 (and then a 0 at sample 29).
  In \<open>gap_after_byte\<close> a flag is followed by the eight data bits 1, 0, 1, 0, 1, 0, 1, 0,
  the gap and the bits 1, 0, 1.
\<close>

definition gap_in_flag_run :: "sample list" where
  "gap_in_flag_run =
     [mk_sample 0 0 0 1, mk_sample 1 1 0 1, mk_sample 3 1 1 1, mk_sample 5 1 1 1,
      mk_sample 7 1 1 1, mk_sample 8 0 1 0, mk_sample 9 0 1 1, mk_sample 11 1 1 1,
      mk_sample 13 1 1 1, mk_sample 15 1 1 1, mk_sample 17 1 0 1, mk_sample 19 1 1 1]"

definition gap_in_abort_run :: "sample list" where
  "gap_in_abort_run =
     mk_sample 0 0 0 1 # take 7 flag_then_byte @
     [mk_sample 17 1 1 1, mk_sample 19 1 1 1, mk_sample 21 1 1 1, mk_sample 23 1 1 1,
      mk_sample 24 0 1 0, mk_sample 25 0 1 1, mk_sample 27 1 1 1, mk_sample 29 1 1 1,
      mk_sample 31 1 1 1, mk_sample 33 1 1 1, mk_sample 35 1 0 1, mk_sample 37 1 0 1]"

definition gap_in_run_of_five :: "sample list" where
  "gap_in_run_of_five =
     mk_sample 0 0 0 1 # take 7 flag_then_byte @
     [mk_sample 17 1 1 1, mk_sample 19 1 1 1, mk_sample 20 0 1 0, mk_sample 21 0 1 1,
      mk_sample 23 1 1 1, mk_sample 25 1 1 1, mk_sample 27 1 1 1]"

definition gap_after_byte :: "sample list" where
  "gap_after_byte =
     mk_sample 0 0 0 1 # take 7 flag_then_byte @
     [mk_sample 17 1 1 1, mk_sample 19 1 0 1, mk_sample 21 1 1 1, mk_sample 23 1 0 1,
      mk_sample 25 1 1 1, mk_sample 27 1 0 1, mk_sample 29 1 1 1, mk_sample 31 1 0 1,
      mk_sample 32 0 0 0, mk_sample 33 0 0 1, mk_sample 35 1 1 1, mk_sample 37 1 0 1,
      mk_sample 39 1 1 1]"

section \<open>Invariants and the shape of one edge\<close>

subsection \<open>Arithmetic of the receive register\<close>

lemma or_bit_lower:
  fixes a :: int
  shows "0 \<le> a \<Longrightarrow> d = 0 \<or> d = 1 \<Longrightarrow> 0 \<le> a OR push_bit n d"
  by auto

lemma or_bit_upper:
  fixes a :: int
  assumes "0 \<le> a" "a < 2 ^ n" "d = 0 \<or> d = 1"
  shows "a OR push_bit n d < 2 ^ Suc n"
proof -
  have "(2::int) ^ n < 2 ^ Suc n" by simp
  then have a: "a < 2 ^ Suc n" using assms(2) by linarith
  have b: "push_bit n d < (2::int) ^ Suc n" using assms(3) by auto
  show ?thesis using assms(1) a b by (rule OR_upper)
qed

lemma reg_invD:
  assumes "reg_inv s"
  shows "0 \<le> bitcount s" "bitcount s \<le> 8" "bitcount s = int (length (rxbits s))"
    "0 \<le> rxdata s" "rxdata s < 2 ^ nat (bitcount s)"
  using assms unfolding reg_inv_def by blast+

lemma reg_inv_reset: "reg_inv (reset s)"
  by (simp add: reg_inv_def reset_def)

lemma wf_reset: "well_formed (reset s)"
  by (simp add: well_formed_def reg_inv_def bit_inv_def reset_def)

lemma wf_Decoder_init: "well_formed Decoder_init"
  by (simp add: well_formed_def reg_inv_def bit_inv_def Decoder_init_def)

lemma shift_bit_inv:
  assumes "reg_inv s" "bitcount s < 8" "d = 0 \<or> d = 1"
  shows "\<exists>s'. shift_bit d s = Inr s' \<and> reg_inv s'"
proof (cases "flag_found s")
  case False
  then show ?thesis using assms by (simp add: shift_bit_def)
next
  case True
  note b = reg_invD(1,3) [OF assms(1)] and r = reg_invD(4,5) [OF assms(1)]
  have n: "nat (bitcount s + 1) = Suc (nat (bitcount s))" using b by simp
  have u: "rxdata s OR push_bit (nat (bitcount s)) d < 2 ^ nat (bitcount s + 1)"
    unfolding n using r assms(3) by (rule or_bit_upper)
  have l: "0 \<le> rxdata s OR push_bit (nat (bitcount s)) d"
    using r(1) assms(3) by (rule or_bit_lower)
  have "reg_inv (s\<lparr>rxdata := rxdata s OR push_bit (nat (bitcount s)) d,
                     rxbits := rxbits s @ [(d, samplenum s)],
                     bitcount := bitcount s + 1\<rparr>)"
    unfolding reg_inv_def using b assms(2) u l by simp
  then show ?thesis using True b by (simp add: shift_bit_def)
qed

text \<open>What \<open>shift_bit\<close> leaves alone.\<close>

lemma shift_bit_frame:
  assumes "shift_bit d s = Inr s'"
  shows "one_count s' = one_count s" "prev_one_count s' = prev_one_count s"
    "ss_prev_false s' = ss_prev_false s" "ss_flag s' = ss_flag s" "flag_found s' = flag_found s"
    "ss_prev_clock s' = ss_prev_clock s" "prev_bit s' = prev_bit s"
    "samplenum s' = samplenum s" "matched0 s' = matched0 s" "cpol s' = cpol s"
    "en_polarity s' = en_polarity s" "have_en s' = have_en s" "rxbytes s' = rxbytes s"
  using assms by (auto simp: shift_bit_def split: if_splits)

lemma reg_inv_eq:
  "bitcount s' = bitcount s \<Longrightarrow> rxbits s' = rxbits s \<Longrightarrow> rxdata s' = rxdata s \<Longrightarrow>
   reg_inv s' \<longleftrightarrow> reg_inv s"
  unfolding reg_inv_def by simp

lemma reg_inv_upd [simp]:
  shows
    "reg_inv (s\<lparr>samplenum := x0\<rparr>) = reg_inv s"
    "reg_inv (s\<lparr>matched0 := x1\<rparr>) = reg_inv s"
    "reg_inv (s\<lparr>en_polarity := x2\<rparr>) = reg_inv s"
    "reg_inv (s\<lparr>cpol := x3\<rparr>) = reg_inv s"
    "reg_inv (s\<lparr>samplerate := x4\<rparr>) = reg_inv s"
    "reg_inv (s\<lparr>rxbytes := x5\<rparr>) = reg_inv s"
    "reg_inv (s\<lparr>prev_bit := x6\<rparr>) = reg_inv s"
    "reg_inv (s\<lparr>ss_prev_clock := x7\<rparr>) = reg_inv s"
    "reg_inv (s\<lparr>ss_prev_false := x8\<rparr>) = reg_inv s"
    "reg_inv (s\<lparr>flag_found := x9\<rparr>) = reg_inv s"
    "reg_inv (s\<lparr>ss_flag := x10\<rparr>) = reg_inv s"
    "reg_inv (s\<lparr>have_en := x11\<rparr>) = reg_inv s"
    "reg_inv (s\<lparr>one_count := x12\<rparr>) = reg_inv s"
    "reg_inv (s\<lparr>prev_one_count := x13\<rparr>) = reg_inv s"
  by (rule reg_inv_eq; simp)+

lemma reg_inv_clearedI:
  "rxdata s = 0 \<Longrightarrow> bitcount s = 0 \<Longrightarrow> rxbits s = [] \<Longrightarrow> reg_inv s"
  unfolding reg_inv_def by simp

lemma count_ones_inv:
  assumes "reg_inv s" "bitcount s < 8" "d = 0 \<or> d = 1"
  shows "\<exists>s'. count_ones d s = Inr s' \<and> reg_inv s'"
proof (cases "d = 1")
  case True
  obtain s1 where s1: "shift_bit d s = Inr s1" "reg_inv s1"
    using shift_bit_inv [OF assms] by blast
  then show ?thesis using True by (simp add: count_ones_def)
next
  case False
  define s1 where "s1 = (if one_count s > 5
                   then s\<lparr>ss_flag := ss_prev_false s, flag_found := False\<rparr> else s)"
  have r1: "reg_inv s1" "bitcount s1 < 8"
    using assms(1,2) by (simp_all add: s1_def)
  obtain s2 where s2: "shift_bit d s1 = Inr s2" "reg_inv s2"
    using shift_bit_inv [OF r1 assms(3)] by blast
  have c: "reg_inv (s1\<lparr>flag_found := True, rxdata := 0, bitcount := 0, rxbits := []\<rparr>)"
    by (rule reg_inv_clearedI) simp_all
  show ?thesis using False r1(1) s2 c
    by (simp add: count_ones_def Let_def s1_def [symmetric])
qed

text \<open>
  On a well-formed state \<open>handle_bit\<close> does not raise before the counting block: it puts
  the previous bit, the FLAG or ABORT of the previous run and the completed byte, and
  runs the counting block on the register the flush leaves.
\<close>

lemma handle_bit_wf_snd:
  assumes "well_formed s"
  shows "snd (handle_bit clk d en s) =
     count_ones d
       (if bitcount s = 8
        then s\<lparr>ss_prev_clock := samplenum s, prev_bit := Some d,
               rxdata := 0, bitcount := 0, rxbits := []\<rparr>
        else s\<lparr>ss_prev_clock := samplenum s, prev_bit := Some d\<rparr>)"
proof -
  have "bitcount s = 8 \<Longrightarrow> rxbits s \<noteq> []"
    using assms by (auto simp: well_formed_def reg_inv_def)
  then show ?thesis using assms
    by (auto simp: handle_bit_def then_do_def display_bit_def display_flag_def display_data_def
        well_formed_def bit_inv_def split: option.splits list.splits prod.splits sum.splits)
qed

lemma handle_bit_wf_fst:
  assumes "well_formed s"
  shows "fst (handle_bit clk d en s) =
     (if ss_prev_clock s \<noteq> - 1
      then [Ann (ss_prev_clock s) (samplenum s) ann_bit [fmt_d (the (prev_bit s))]] else []) @
     (if prev_one_count s = 6 then [Ann (ss_flag s) (samplenum s) ann_data_type [''FLAG'']]
      else if prev_one_count s > 6 then [Ann (ss_flag s) (samplenum s) ann_data_type [''ABORT'']]
      else []) @
     (if bitcount s = 8
      then [Ann (snd (hd (rxbits s))) (samplenum s) ann_data [fmt_02X (rxdata s)]] else [])"
proof -
  have "bitcount s = 8 \<Longrightarrow> rxbits s \<noteq> []"
    using assms by (auto simp: well_formed_def reg_inv_def)
  then show ?thesis using assms
    by (auto simp: handle_bit_def then_do_def display_bit_def display_flag_def display_data_def
        well_formed_def bit_inv_def split: option.splits list.splits prod.splits sum.splits)
qed

lemma handle_bit_wf:
  assumes "well_formed s" "d = 0 \<or> d = 1"
  shows "\<exists>outs s'. handle_bit clk d en s = (outs, Inr s') \<and> well_formed s'"
proof -
  let ?s3 = "if bitcount s = 8
        then s\<lparr>ss_prev_clock := samplenum s, prev_bit := Some d,
               rxdata := 0, bitcount := 0, rxbits := []\<rparr>
        else s\<lparr>ss_prev_clock := samplenum s, prev_bit := Some d\<rparr>"
  from assms(1) have r: "reg_inv s" by (simp add: well_formed_def)
  have c: "reg_inv (s\<lparr>ss_prev_clock := samplenum s, prev_bit := Some d,
               rxdata := 0, bitcount := 0, rxbits := []\<rparr>)"
    by (rule reg_inv_clearedI) simp_all
  have r3: "reg_inv ?s3" "bitcount ?s3 < 8"
    using r reg_invD(2) [OF r] c by simp_all
  obtain s4 where s4: "count_ones d ?s3 = Inr s4" "reg_inv s4"
    using count_ones_inv [OF r3 assms(2)] by blast
  have "prev_bit s4 = Some d"
    using s4(1) by (auto simp: count_ones_def shift_bit_def Let_def split: if_splits)
  then have "well_formed s4" using s4(2) by (simp add: well_formed_def bit_inv_def)
  moreover have "snd (handle_bit clk d en s) = Inr s4"
    using handle_bit_wf_snd [OF assms(1)] s4(1) by simp
  ultimately show ?thesis by (metis prod.collapse)
qed

subsection \<open>Edges and the loop\<close>

lemma wf_wait [simp]: "well_formed (wait x s) = well_formed s"
  by (simp add: well_formed_def bit_inv_def wait_def)

lemma qualifying_cong:
  "have_en s' = have_en s \<Longrightarrow> en_polarity s' = en_polarity s \<Longrightarrow> cpol s' = cpol s \<Longrightarrow>
   qualifying s' = qualifying s"
  by (simp add: qualifying_def en_asserted_def fun_eq_iff)

lemma edge_qualifying:
  "qualifying s x \<Longrightarrow> edge x s = handle_bit (s_clk x) (s_data x) (s_en x) (wait x s)"
  by (auto simp: edge_def find_clk_edge_def qualifying_def wait_def en_asserted_def)

lemma count_ones_frame:
  assumes "count_ones d s = Inr s'"
  shows "have_en s' = have_en s" "en_polarity s' = en_polarity s" "cpol s' = cpol s"
    "samplenum s' = samplenum s" "prev_bit s' = prev_bit s" "ss_prev_clock s' = ss_prev_clock s"
  using assms
  by (auto simp: count_ones_def shift_bit_def Let_def split: if_splits)

text \<open>A qualifying edge on a well-formed state, in terms of the counting block.\<close>

lemma edge_wf_snd:
  assumes "well_formed s" "qualifying s x"
  shows "snd (edge x s) =
     count_ones (s_data x)
       (if bitcount s = 8
        then s\<lparr>samplenum := s_samplenum x, matched0 := s_matched0 x,
               ss_prev_clock := s_samplenum x, prev_bit := Some (s_data x),
               rxdata := 0, bitcount := 0, rxbits := []\<rparr>
        else s\<lparr>samplenum := s_samplenum x, matched0 := s_matched0 x,
               ss_prev_clock := s_samplenum x, prev_bit := Some (s_data x)\<rparr>)"
proof -
  have "well_formed (wait x s)" using assms(1) by simp
  from handle_bit_wf_snd [OF this] show ?thesis
    unfolding edge_qualifying [OF assms(2)] by (simp add: wait_def)
qed

lemma edge_wf_fst:
  assumes "well_formed s" "qualifying s x"
  shows "fst (edge x s) =
     (if ss_prev_clock s \<noteq> - 1
      then [Ann (ss_prev_clock s) (s_samplenum x) ann_bit [fmt_d (the (prev_bit s))]] else []) @
     (if prev_one_count s = 6 then [Ann (ss_flag s) (s_samplenum x) ann_data_type [''FLAG'']]
      else if prev_one_count s > 6 then [Ann (ss_flag s) (s_samplenum x) ann_data_type [''ABORT'']]
      else []) @
     (if bitcount s = 8
      then [Ann (snd (hd (rxbits s))) (s_samplenum x) ann_data [fmt_02X (rxdata s)]] else [])"
proof -
  have "well_formed (wait x s)" using assms(1) by simp
  from handle_bit_wf_fst [OF this] show ?thesis
    unfolding edge_qualifying [OF assms(2)] by (simp add: wait_def)
qed

lemma edge_wf:
  assumes "well_formed s" "qualifying s x" "s_data x = 0 \<or> s_data x = 1"
  shows "\<exists>outs s'. edge x s = (outs, Inr s') \<and> well_formed s' \<and> qualifying s' = qualifying s"
proof -
  have w: "well_formed (wait x s)" using assms(1) by simp
  obtain outs s' where h: "handle_bit (s_clk x) (s_data x) (s_en x) (wait x s) = (outs, Inr s')" "well_formed s'"
    using handle_bit_wf [OF w assms(3)] by blast
  have "snd (edge x s) = Inr s'" using h(1) edge_qualifying [OF assms(2)] by simp
  then have c: "count_ones (s_data x)
       (if bitcount s = 8
        then s\<lparr>samplenum := s_samplenum x, matched0 := s_matched0 x,
               ss_prev_clock := s_samplenum x, prev_bit := Some (s_data x),
               rxdata := 0, bitcount := 0, rxbits := []\<rparr>
        else s\<lparr>samplenum := s_samplenum x, matched0 := s_matched0 x,
               ss_prev_clock := s_samplenum x, prev_bit := Some (s_data x)\<rparr>) = Inr s'"
    using edge_wf_snd [OF assms(1,2)] by simp
  have "qualifying s' = qualifying s"
    by (rule qualifying_cong) (use count_ones_frame(1-3) [OF c] in \<open>simp_all split: if_splits\<close>)
  then show ?thesis using h edge_qualifying [OF assms(2)] by simp
qed

text \<open>The loop on a concatenated input.\<close>

lemma decode_loop_append:
  assumes "decode_loop xs s = (o1, w1, EndOfInput s1)"
  shows "decode_loop (xs @ ys) s =
     (case decode_loop ys s1 of (o2, w2, oc) \<Rightarrow> (o1 @ o2, w1 + w2 - 1, oc))"
  using assms
proof (induction xs arbitrary: s o1 w1)
  case Nil
  then show ?case by (simp split: prod.splits)
next
  case (Cons x xs)
  obtain out r where e: "edge x s = (out, r)" by (cases "edge x s")
  show ?case
  proof (cases r)
    case (Inl err)
    then show ?thesis using Cons.prems e by simp
  next
    case (Inr s')
    obtain out' w' oc' where d: "decode_loop xs s' = (out', w', oc')"
      by (cases "decode_loop xs s'") auto
    have oc: "oc' = EndOfInput s1" "o1 = out @ out'" "w1 = Suc w'"
      using Cons.prems e Inr d by simp_all
    have "decode_loop (xs @ ys) s' =
      (case decode_loop ys s1 of (o2, w2, oc) \<Rightarrow> (out' @ o2, w' + w2 - 1, oc))"
      using Cons.IH d oc(1) by simp
    moreover have "0 < w'" using d oc(1)
      by (induction xs arbitrary: s' out' w') (auto split: prod.splits sum.splits)
    ultimately show ?thesis using e Inr oc by (auto split: prod.splits)
  qed
qed

lemma decode_loop_single:
  "edge x s = (outs, Inr s') \<Longrightarrow> decode_loop [x] s = (outs, 2, EndOfInput s')"
  by simp

text \<open>A run of 1 bits on qualifying edges.\<close>

lemma ones_run:
  assumes "well_formed s" "\<forall>x\<in>set xs. qualifying s x \<and> s_data x = 1"
  shows "\<exists>outs w s'. decode_loop xs s = (outs, w, EndOfInput s') \<and> well_formed s' \<and>
     qualifying s' = qualifying s \<and>
     one_count s' = one_count s + int (length xs) \<and>
     ss_prev_false s' = ss_prev_false s \<and> flag_found s' = flag_found s"
  using assms
proof (induction xs arbitrary: s)
  case Nil
  then show ?case by simp
next
  case (Cons x xs)
  have q: "qualifying s x" and d: "s_data x = 1" using Cons.prems(2) by simp_all
  obtain outs s1 where e: "edge x s = (outs, Inr s1)" "well_formed s1" "qualifying s1 = qualifying s"
    using edge_wf [OF Cons.prems(1) q] d by auto
  have c: "snd (edge x s) = Inr s1" using e(1) by simp
  have f: "one_count s1 = one_count s + 1" "ss_prev_false s1 = ss_prev_false s"
    "flag_found s1 = flag_found s"
    using c unfolding edge_wf_snd [OF Cons.prems(1) q]
    by (auto simp: d count_ones_def shift_bit_def split: if_splits)
  have "\<forall>x\<in>set xs. qualifying s1 x \<and> s_data x = 1" using Cons.prems(2) e(3) by simp
  from Cons.IH [OF e(2) this] obtain outs' w s' where
    r: "decode_loop xs s1 = (outs', w, EndOfInput s')" "well_formed s'" "qualifying s' = qualifying s1"
      "one_count s' = one_count s1 + int (length xs)" "ss_prev_false s' = ss_prev_false s1"
      "flag_found s' = flag_found s1"
    by blast
  show ?case using e r f by simp
qed

section \<open>Flags, aborts and stuffing\<close>

text \<open>A run of 1 bits that starts with the counter at 0 and is closed by a 0 bit.\<close>

lemma run_then_zero:
  assumes "well_formed s" "one_count s = 0"
    and "\<forall>x\<in>set ones. qualifying s x \<and> s_data x = 1"
    and "qualifying s z" "s_data z = 0"
  shows "\<exists>outs w s'. decode_loop (ones @ [z]) s = (outs, w, EndOfInput s') \<and> well_formed s' \<and>
     qualifying s' = qualifying s \<and> prev_one_count s' = int (length ones) \<and>
     (5 < length ones \<longrightarrow> ss_flag s' = ss_prev_false s) \<and>
     (length ones = 6 \<longrightarrow> flag_found s' \<and> rxdata s' = 0 \<and> bitcount s' = 0 \<and> rxbits s' = []) \<and>
     (6 < length ones \<longrightarrow> \<not> flag_found s') \<and> one_count s' = 0"
proof -
  obtain o1 w1 s1 where
    r: "decode_loop ones s = (o1, w1, EndOfInput s1)" "well_formed s1"
      "qualifying s1 = qualifying s" "one_count s1 = one_count s + int (length ones)"
      "ss_prev_false s1 = ss_prev_false s"
    using ones_run [OF assms(1,3)] by blast
  have q: "qualifying s1 z" using assms(4) r(3) by simp
  obtain o2 s2 where e: "edge z s1 = (o2, Inr s2)" "well_formed s2" "qualifying s2 = qualifying s1"
    using edge_wf [OF r(2) q] assms(5) by auto
  have c: "snd (edge z s1) = Inr s2" using e(1) by simp
  have n: "one_count s1 = int (length ones)" using r(4) assms(2) by simp
  have f: "prev_one_count s2 = int (length ones)"
    "5 < length ones \<longrightarrow> ss_flag s2 = ss_prev_false s"
    "length ones = 6 \<longrightarrow> flag_found s2 \<and> rxdata s2 = 0 \<and> bitcount s2 = 0 \<and> rxbits s2 = []"
    "6 < length ones \<longrightarrow> \<not> flag_found s2" "one_count s2 = 0"
    using c unfolding edge_wf_snd [OF r(2) q]
    by (auto simp: assms(5) n r(5) count_ones_def shift_bit_def Let_def split: if_splits)
  have "decode_loop (ones @ [z]) s = (o1 @ o2, w1 + 2 - 1, EndOfInput s2)"
    using decode_loop_append [OF r(1), of "[z]"] e(1) by simp
  then show ?thesis using e(2,3) r(3) f by simp
qed

text \<open>A 1 bit on a qualifying edge while \<open>flag_found\<close> holds is shifted in.\<close>

lemma edge_one_shift:
  assumes "well_formed t" "qualifying t y" "s_data y = 1" "flag_found t"
  shows "\<exists>outs t'. edge y t = (outs, Inr t') \<and>
     rxdata t' = (if bitcount t = 8 then 0 else rxdata t)
                   OR push_bit (nat (if bitcount t = 8 then 0 else bitcount t)) 1 \<and>
     bitcount t' = (if bitcount t = 8 then 0 else bitcount t) + 1 \<and>
     rxbits t' = (if bitcount t = 8 then [] else rxbits t) @ [(1, s_samplenum y)] \<and>
     one_count t' = one_count t + 1 \<and> flag_found t'"
proof -
  obtain outs t' where e: "edge y t = (outs, Inr t')"
    using edge_wf [OF assms(1,2)] assms(3) by auto
  have b: "0 \<le> bitcount t" using assms(1) by (simp add: well_formed_def reg_invD)
  have c: "snd (edge y t) = Inr t'" using e by simp
  show ?thesis using c b unfolding edge_wf_snd [OF assms(1,2)]
    by (auto simp: e assms(3,4) count_ones_def shift_bit_def split: if_splits)
qed

text \<open>A 0 bit on a qualifying edge, by the length of the run it closes.\<close>

lemma edge_zero:
  assumes "well_formed t" "qualifying t z" "s_data z = 0"
  shows "\<exists>outs t'. edge z t = (outs, Inr t') \<and>
     (one_count t = 5 \<longrightarrow>
        rxdata t' = (if bitcount t = 8 then 0 else rxdata t) \<and>
        bitcount t' = (if bitcount t = 8 then 0 else bitcount t) \<and>
        rxbits t' = (if bitcount t = 8 then [] else rxbits t) \<and>
        flag_found t' = flag_found t) \<and>
     (one_count t < 5 \<and> flag_found t \<longrightarrow>
        rxdata t' = (if bitcount t = 8 then 0 else rxdata t) \<and>
        bitcount t' = (if bitcount t = 8 then 0 else bitcount t) + 1 \<and>
        rxbits t' = (if bitcount t = 8 then [] else rxbits t) @ [(0, s_samplenum z)] \<and>
        flag_found t')"
proof -
  obtain outs t' where e: "edge z t = (outs, Inr t')"
    using edge_wf [OF assms(1,2)] assms(3) by auto
  have b: "0 \<le> bitcount t" using assms(1) by (simp add: well_formed_def reg_invD)
  have c: "snd (edge z t) = Inr t'" using e by simp
  show ?thesis using c b unfolding edge_wf_snd [OF assms(1,2)]
    by (auto simp: e assms(3) count_ones_def shift_bit_def Let_def split: if_splits)
qed

section \<open>Byte emission\<close>





lemma after_flag_reached:
  "final_state (decode_loop (take 7 flag_then_byte) Decoder_init) = Some after_flag"
  by (simp add: flag_then_byte_def mk_sample_def Decoder_init_def after_flag_def edge_def wait_def
      find_clk_edge_def handle_bit_def then_do_def display_bit_def display_flag_def
      display_data_def count_ones_def shift_bit_def en_asserted_def)

lemma wf_after_flag: "well_formed after_flag"
  by (simp add: well_formed_def reg_inv_def bit_inv_def after_flag_def)

section \<open>The register invariant\<close>

lemma find_clk_edge_wf:
  assumes "well_formed s" "d = 0 \<or> d = 1"
  shows "\<exists>outs s'. find_clk_edge clk d en first s = (outs, Inr s') \<and> well_formed s'"
proof -
  have r: "well_formed (s\<lparr>rxdata := 0, bitcount := 0, rxbits := [], rxbytes := [],
                    one_count := 0, ss_prev_clock := - 1\<rparr>)"
    unfolding well_formed_def
    by (intro conjI, simp, rule reg_inv_clearedI) (simp_all add: bit_inv_def)
  show ?thesis
    using r assms(1) handle_bit_wf [OF assms, of clk en]
    by (auto simp: find_clk_edge_def)
qed

lemma edge_any_wf:
  assumes "well_formed s" "s_data x = 0 \<or> s_data x = 1"
  shows "\<exists>outs s'. edge x s = (outs, Inr s') \<and> well_formed s'"
  unfolding edge_def using find_clk_edge_wf [of "wait x s"] assms by simp

lemma decode_loop_wf:
  assumes "well_formed s" "\<forall>x\<in>set samples. s_data x = 0 \<or> s_data x = 1"
  shows "\<exists>outs w s'. decode_loop samples s = (outs, w, EndOfInput s') \<and> well_formed s'"
  using assms
proof (induction samples arbitrary: s)
  case Nil
  then show ?case by simp
next
  case (Cons x xs)
  obtain o1 s1 where e: "edge x s = (o1, Inr s1)" "well_formed s1"
    using edge_any_wf [OF Cons.prems(1), of x] Cons.prems(2) by auto
  have dx: "\<forall>x\<in>set xs. s_data x = 0 \<or> s_data x = 1" using Cons.prems(2) by simp
  obtain o2 w s' where r: "decode_loop xs s1 = (o2, w, EndOfInput s')" "well_formed s'"
    using Cons.IH [OF e(2) dx] by blast
  show ?case using e(1) r by simp
qed

lemma wf_have_en [simp]: "well_formed (s\<lparr>have_en := v\<rparr>) = well_formed s"
  by (simp add: well_formed_def bit_inv_def)

lemma decode_wf:
  assumes "well_formed s" "\<forall>x\<in>set samples. s_data x = 0 \<or> s_data x = 1"
    and "has_channel 0 \<or> has_channel 1"
  shows "\<exists>outs w s'. decode has_channel samples s = (outs, w, EndOfInput s') \<and> well_formed s'"
proof (cases samples)
  case Nil
  then show ?thesis using assms(1,3) by (auto simp: decode_def Let_def)
next
  case (Cons x xs)
  define s2 where "s2 = (if truthy (PyBool (has_channel 2))
      then s\<lparr>have_en := PyInt (int (length wait_cond0))\<rparr>
      else s\<lparr>have_en := PyBool (has_channel 2)\<rparr>)"
  have w2: "well_formed (wait x s2)" using assms(1) by (simp add: s2_def)
  have d: "s_data x = 0 \<or> s_data x = 1" using assms(2) Cons by simp
  obtain o1 s3 where f: "find_clk_edge (s_clk x) (s_data x) (s_en x) True (wait x s2) = (o1, Inr s3)"
    "well_formed s3"
    using find_clk_edge_wf [OF w2 d] by blast
  have dx: "\<forall>x\<in>set xs. s_data x = 0 \<or> s_data x = 1" using assms(2) Cons by simp
  obtain o2 w s' where r: "decode_loop xs s3 = (o2, w, EndOfInput s')" "well_formed s'"
    using decode_loop_wf [OF f(2) dx] by blast
  have "s2 = (if truthy (have_en (s\<lparr>have_en := PyBool (has_channel 2)\<rparr>))
                  then s\<lparr>have_en := PyBool (has_channel 2)\<rparr>\<lparr>have_en := PyInt (int (length wait_cond0))\<rparr>
                  else s\<lparr>have_en := PyBool (has_channel 2)\<rparr>)"
    by (simp add: s2_def)
  then show ?thesis using assms(3) Cons f r
    by (auto simp: decode_def Let_def)
qed

section \<open>The edge gate\<close>

lemmas run_defs =
  flag_then_byte_def mk_sample_def Decoder_init_def after_flag_def enabled_after_flag_def
  decode_def wait_cond0_def wired_all_def wired_clk_data_def
  edge_def wait_def find_clk_edge_def handle_bit_def then_do_def display_bit_def
  display_flag_def display_data_def count_ones_def shift_bit_def en_asserted_def

lemma enabled_after_flag_reached:
  "final_state (decode wired_all (mk_sample 1 1 0 1 # take 7 flag_then_byte) Decoder_init)
     = Some enabled_after_flag"
  by (simp add: run_defs)

text \<open>
  Claim C5 as stated fails where it says that the frame reset clears \<open>flag_found\<close>: on the
  state reached right after a flag with enable wired, a sample with enable deasserted
  leaves \<open>flag_found\<close> true, while its initial value is false.
\<close>

theorem frame_reset_keeps_flag_found:
  "truthy (have_en enabled_after_flag) \<and> \<not> en_asserted enabled_after_flag 0 \<and>
   map_sum id flag_found (snd (find_clk_edge 0 0 0 False enabled_after_flag)) = Inr True \<and>
   flag_found (reset enabled_after_flag) = False"
  by (simp add: run_defs reset_def)

text \<open>
  Claim C5, as amended. When the enable channel is wired and sampled deasserted,
  \<open>find_clk_edge\<close> puts nothing and returns the state with \<open>rxdata\<close>, \<open>bitcount\<close>, \<open>rxbits\<close>,
  \<open>rxbytes\<close>, \<open>one_count\<close> and \<open>ss_prev_clock\<close> at their initial values and every other field,
  \<open>flag_found\<close> among them, as it was; the sample is not processed further.
\<close>

theorem frame_reset:
  assumes "truthy (have_en s)" "\<not> en_asserted s en"
  shows "\<exists>s'. find_clk_edge clk data en first s = ([], Inr s') \<and>
     s' = s\<lparr>rxdata := 0, bitcount := 0, rxbits := [], rxbytes := [],
            one_count := 0, ss_prev_clock := - 1\<rparr> \<and>
     rxdata s' = rxdata (reset s) \<and> bitcount s' = bitcount (reset s) \<and>
     rxbits s' = rxbits (reset s) \<and> rxbytes s' = rxbytes (reset s) \<and>
     one_count s' = one_count (reset s) \<and> ss_prev_clock s' = ss_prev_clock (reset s) \<and>
     flag_found s' = flag_found s \<and> prev_one_count s' = prev_one_count s \<and>
     prev_bit s' = prev_bit s \<and> ss_prev_false s' = ss_prev_false s \<and>
     ss_flag s' = ss_flag s \<and> have_en s' = have_en s"
  using assms by (simp add: find_clk_edge_def reset_def)

theorem frame_reset_witness:
  "truthy (have_en enabled_after_flag) \<and> \<not> en_asserted enabled_after_flag 0 \<and>
   (\<exists>s'. find_clk_edge 1 1 0 False enabled_after_flag = ([], Inr s') \<and>
      bitcount s' = 0 \<and> one_count s' = 0 \<and> ss_prev_clock s' = - 1 \<and> flag_found s')"
proof -
  have h: "truthy (have_en enabled_after_flag)" "\<not> en_asserted enabled_after_flag 0"
    by (simp_all add: enabled_after_flag_def after_flag_def en_asserted_def)
  have f: "flag_found enabled_after_flag" "bitcount (reset enabled_after_flag) = 0"
    "one_count (reset enabled_after_flag) = 0" "ss_prev_clock (reset enabled_after_flag) = - 1"
    by (simp_all add: enabled_after_flag_def after_flag_def reset_def)
  from frame_reset [OF h, of 1 1 False] f h show ?thesis by auto
qed

text \<open>
  Claim C6 as stated fails when the enable channel is wired and deasserted: with three
  bits held after a flag, a sample (not the bootstrap one) at clock level 0, which is not
  \<open>cpol\<close>, with enable at 0 clears the register.
\<close>

theorem other_level_resets_when_disabled:
  "map_option bitcount (final_state
     (decode wired_all (mk_sample 1 1 0 1 # take 10 flag_then_byte) Decoder_init)) = Some 3 \<and>
   map_option bitcount (final_state
     (decode wired_all (mk_sample 1 1 0 1 # take 10 flag_then_byte @ [mk_sample 22 0 0 0])
        Decoder_init)) = Some 0 \<and>
   s_clk (mk_sample 22 0 0 0) \<noteq> cpol Decoder_init"
  by (simp add: run_defs)

text \<open>
  Claim C6, as amended. A sample whose clock level differs from \<open>cpol\<close>, taken while the
  enable channel is not wired or is asserted, leaves the state that \<open>find_clk_edge\<close>
  receives unchanged and puts nothing.
\<close>

theorem other_clock_level_ignored:
  assumes "clk \<noteq> cpol s" "\<not> (truthy (have_en s) \<and> \<not> en_asserted s en)"
  shows "find_clk_edge clk data en first s = ([], Inr s)"
  using assms by (auto simp: find_clk_edge_def)

theorem other_clock_level_ignored_witness:
  "(0::int) \<noteq> cpol enabled_after_flag \<and>
   \<not> (truthy (have_en enabled_after_flag) \<and> \<not> en_asserted enabled_after_flag 1) \<and>
   find_clk_edge 0 1 1 False enabled_after_flag = ([], Inr enabled_after_flag)"
proof -
  have h: "(0::int) \<noteq> cpol enabled_after_flag"
    "\<not> (truthy (have_en enabled_after_flag) \<and> \<not> en_asserted enabled_after_flag 1)"
    by (simp_all add: enabled_after_flag_def after_flag_def en_asserted_def)
  from other_clock_level_ignored [OF h, of 1 False] h show ?thesis by simp
qed

section \<open>Startup and the Python output\<close>

subsection \<open>What is put on the Python output\<close>

lemma handle_bit_no_py: "filter is_py (fst (handle_bit clk d en s)) = []"
  by (auto simp: handle_bit_def then_do_def display_bit_def display_flag_def display_data_def
      split: option.splits list.splits prod.splits sum.splits)

lemma find_clk_edge_no_py: "filter is_py (fst (find_clk_edge clk d en first s)) = []"
  by (simp add: find_clk_edge_def handle_bit_no_py)

lemma decode_loop_no_py: "filter is_py (fst (decode_loop xs s)) = []"
proof (induction xs arbitrary: s)
  case Nil
  then show ?case by simp
next
  case (Cons x xs)
  have e: "filter is_py (fst (edge x s)) = []"
    by (simp add: edge_def find_clk_edge_no_py)
  show ?case
  proof (cases "edge x s")
    case (Pair out r)
    show ?thesis
    proof (cases r)
      case (Inl err)
      then show ?thesis using e Pair by simp
    next
      case (Inr s')
      obtain o2 w oc where d: "decode_loop xs s' = (o2, w, oc)"
        by (cases "decode_loop xs s'") auto
      then show ?thesis using Cons.IH [of s'] e Pair Inr by simp
    qed
  qed
qed

text \<open>Nothing of the loop raises ChannelError, and every round calls \<open>wait\<close>.\<close>

lemma handle_bit_not_channel_error: "snd (handle_bit clk d en s) \<noteq> Inl ChannelError"
  by (auto simp: handle_bit_def then_do_def display_bit_def display_flag_def display_data_def
      count_ones_def shift_bit_def Let_def
      split: option.splits list.splits prod.splits sum.splits)

lemma find_clk_edge_not_channel_error:
  "snd (find_clk_edge clk d en first s) \<noteq> Inl ChannelError"
  by (simp add: find_clk_edge_def handle_bit_not_channel_error)

lemma decode_loop_waits:
  "0 < fst (snd (decode_loop xs s)) \<and> snd (snd (decode_loop xs s)) \<noteq> Raised ChannelError"
proof (induction xs arbitrary: s)
  case Nil
  then show ?case by simp
next
  case (Cons x xs)
  have e: "snd (edge x s) \<noteq> Inl ChannelError"
    by (simp add: edge_def find_clk_edge_not_channel_error)
  show ?case
  proof (cases "edge x s")
    case (Pair out r)
    show ?thesis
    proof (cases r)
      case (Inl err)
      then show ?thesis using e Pair by auto
    next
      case (Inr s')
      obtain o2 w oc where d: "decode_loop xs s' = (o2, w, oc)"
        by (cases "decode_loop xs s'") auto
      then show ?thesis using Cons.IH [of s'] Pair Inr by simp
    qed
  qed
qed

text \<open>\<open>decode\<close> on a first sample, once the channel check has passed.\<close>

lemma decode_Cons:
  assumes "has_channel 0 \<or> has_channel 1"
  shows "decode has_channel (x # xs) s =
     (case find_clk_edge (s_clk x) (s_data x) (s_en x) True
             (wait x (s\<lparr>have_en := (if has_channel 2 then PyInt 1 else PyBool False)\<rparr>)) of
        (out, Inl e) \<Rightarrow>
          ((if has_channel 2 then [] else [Py 0 0 (CS_CHANGE None None)]) @ out, 1, Raised e)
      | (out, Inr s3) \<Rightarrow>
          (case decode_loop xs s3 of
             (out', w, oc) \<Rightarrow>
               ((if has_channel 2 then [] else [Py 0 0 (CS_CHANGE None None)]) @ out @ out',
                Suc w, oc)))"
  using assms by (auto simp: decode_def Let_def wait_cond0_def)

lemma find_clk_edge_first:
  "\<exists>s'. find_clk_edge clk d en True s = ([], Inr s')"
  by (simp add: find_clk_edge_def)

text \<open>
  Claim C7. \<open>decode\<close> raises ChannelError, with no record put and before any call of
  \<open>wait\<close>, if neither the clock nor the data channel is wired; if one of them is wired it
  calls \<open>wait\<close>, never ends with ChannelError, and enters the loop (a second call of
  \<open>wait\<close>) as soon as the first sample is delivered.
\<close>

theorem channel_error_iff:
  "(\<not> has_channel 0 \<and> \<not> has_channel 1 \<longrightarrow>
      decode has_channel samples s = ([], 0, Raised ChannelError)) \<and>
   (has_channel 0 \<or> has_channel 1 \<longrightarrow>
      (\<exists>outs w oc. decode has_channel samples s = (outs, w, oc) \<and> 1 \<le> w \<and>
         oc \<noteq> Raised ChannelError \<and> (samples \<noteq> [] \<longrightarrow> 2 \<le> w)))"
proof (intro conjI impI)
  assume "\<not> has_channel 0 \<and> \<not> has_channel 1"
  then show "decode has_channel samples s = ([], 0, Raised ChannelError)"
    by (simp add: decode_def)
next
  assume h: "has_channel 0 \<or> has_channel 1"
  show "\<exists>outs w oc. decode has_channel samples s = (outs, w, oc) \<and> 1 \<le> w \<and>
         oc \<noteq> Raised ChannelError \<and> (samples \<noteq> [] \<longrightarrow> 2 \<le> w)"
  proof (cases samples)
    case Nil
    then show ?thesis using h by (auto simp: decode_def Let_def)
  next
    case (Cons x xs)
    define s2 where "s2 = s\<lparr>have_en := (if has_channel 2 then PyInt 1 else PyBool False)\<rparr>"
    obtain s3 where f: "find_clk_edge (s_clk x) (s_data x) (s_en x) True (wait x s2) = ([], Inr s3)"
      using find_clk_edge_first by blast
    obtain o2 w oc where r: "decode_loop xs s3 = (o2, w, oc)"
      by (cases "decode_loop xs s3") auto
    have "0 < w" "oc \<noteq> Raised ChannelError" using decode_loop_waits [of xs s3] r by simp_all
    then show ?thesis using Cons f r
      unfolding Cons decode_Cons [OF h] s2_def [symmetric] by simp
  qed
qed

theorem channel_error_iff_witness:
  "decode wired_none flag_then_byte Decoder_init = ([], 0, Raised ChannelError) \<and>
   (\<exists>outs w oc. decode wired_clk_data flag_then_byte Decoder_init = (outs, w, oc) \<and> 2 \<le> w \<and>
      oc \<noteq> Raised ChannelError)"
proof -
  have a: "\<not> wired_none 0 \<and> \<not> wired_none 1" by (simp add: wired_none_def)
  have b: "wired_clk_data 0 \<or> wired_clk_data 1" by (simp add: wired_clk_data_def)
  have c: "flag_then_byte \<noteq> []" by (simp add: flag_then_byte_def)
  from channel_error_iff [of wired_none flag_then_byte Decoder_init]
    channel_error_iff [of wired_clk_data flag_then_byte Decoder_init] a b c
  show ?thesis by blast
qed

text \<open>
  Claim C9. With the enable channel not wired (and decoding started, that is clock or data
  wired), the records put begin with the synthetic \<open>['CS-CHANGE', None, None]\<close>, put even
  when no sample is ever delivered, and no other record on the Python output follows.
\<close>

theorem single_cs_change_without_enable:
  assumes "\<not> has_channel 2" "has_channel 0 \<or> has_channel 1"
  shows "(\<exists>rest. fst (decode has_channel samples s) = Py 0 0 (CS_CHANGE None None) # rest \<and>
            filter is_py rest = []) \<and>
         fst (decode has_channel [] s) = [Py 0 0 (CS_CHANGE None None)]"
proof (cases samples)
  case Nil
  then show ?thesis using assms by (simp add: decode_def Let_def)
next
  case (Cons x xs)
  define s2 where "s2 = s\<lparr>have_en := (if has_channel 2 then PyInt 1 else PyBool False)\<rparr>"
  obtain o1 r1 where f: "find_clk_edge (s_clk x) (s_data x) (s_en x) True (wait x s2) = (o1, r1)"
    by (cases "find_clk_edge (s_clk x) (s_data x) (s_en x) True (wait x s2)")
  have p1: "filter is_py o1 = []" using find_clk_edge_no_py [of "s_clk x" "s_data x" "s_en x" True "wait x s2"] f by simp
  have "\<exists>rest. fst (decode has_channel samples s) = Py 0 0 (CS_CHANGE None None) # rest \<and>
            filter is_py rest = []"
  proof (cases r1)
    case (Inl e)
    then show ?thesis using assms(1) f p1
      unfolding Cons decode_Cons [OF assms(2)] s2_def [symmetric] by simp
  next
    case (Inr s3)
    obtain o2 w oc where r: "decode_loop xs s3 = (o2, w, oc)"
      by (cases "decode_loop xs s3") auto
    have "filter is_py o2 = []" using decode_loop_no_py [of xs s3] r by simp
    then show ?thesis using assms(1) f p1 Inr r
      unfolding Cons decode_Cons [OF assms(2)] s2_def [symmetric] by simp
  qed
  moreover have "fst (decode has_channel [] s) = [Py 0 0 (CS_CHANGE None None)]"
    using assms by (simp add: decode_def Let_def)
  ultimately show ?thesis by simp
qed

theorem single_cs_change_without_enable_witness:
  "\<exists>rest. fst (decode wired_clk_data flag_then_byte Decoder_init)
       = Py 0 0 (CS_CHANGE None None) # rest \<and> filter is_py rest = []"
proof -
  have a: "\<not> wired_clk_data 2" "wired_clk_data 0 \<or> wired_clk_data 1"
    by (simp_all add: wired_clk_data_def)
  from single_cs_change_without_enable [OF a, of flag_then_byte Decoder_init]
  show ?thesis by blast
qed

text \<open>
  Claim C8 asks for a CS-CHANGE record at every transition of the wired enable signal and
  a TRANSFER record with the block's bytes at the end of each enable-asserted block, as
  the module's description of the Python output does. The code puts neither: on
  \<open>enable_block\<close>, where enable rises, the byte F8 is received and annotated, and enable
  falls, nothing at all is put on the Python output.
\<close>

theorem no_frame_records_with_enable:
  "filter is_py (fst (decode wired_all enable_block Decoder_init)) = [] \<and>
   filter is_data_ann (fst (decode wired_all enable_block Decoder_init))
     = [Ann 17 33 ann_data [''F8'']]"
  by (simp add: enable_block_def flag_then_byte_def mk_sample_def Decoder_init_def
      decode_def wait_cond0_def wired_all_def
      edge_def wait_def find_clk_edge_def handle_bit_def then_do_def display_bit_def
      display_flag_def display_data_def count_ones_def shift_bit_def en_asserted_def
      ann_bit_def ann_data_def ann_data_type_def fmt_02X_def hex_digits.simps digit_char_def)

section \<open>Inputs with samples that are not qualifying edges\<close>

subsection \<open>The options and \<open>have_en\<close> stay as they are\<close>

lemma then_do_Inr:
  assumes "then_do m f = (outs, Inr b)"
  shows "\<exists>o1 a o2. m = (o1, Inr a) \<and> f a = (o2, Inr b) \<and> outs = o1 @ o2"
  using assms by (auto simp: then_do_def split: prod.splits sum.splits)

lemma handle_bit_config:
  assumes "handle_bit clk d en s = (outs, Inr s')"
  shows "have_en s' = have_en s \<and> en_polarity s' = en_polarity s \<and> cpol s' = cpol s"
proof -
  from assms obtain o1 s1 o23 where
    a: "display_bit d s = (o1, Inr s1)"
    and b: "then_do (display_flag s1) (\<lambda>s2.
              then_do (display_data s2) (\<lambda>s3. ([], count_ones d s3))) = (o23, Inr s')"
    unfolding handle_bit_def by (drule_tac then_do_Inr) blast
  from b obtain o2 s2 o3 where
    c: "display_flag s1 = (o2, Inr s2)"
    and e: "then_do (display_data s2) (\<lambda>s3. ([], count_ones d s3)) = (o3, Inr s')"
    by (drule_tac then_do_Inr) blast
  from e obtain o4 s3 o5 where
    f: "display_data s2 = (o4, Inr s3)" and g: "([], count_ones d s3) = (o5, Inr s')"
    by (drule_tac then_do_Inr) blast
  have 1: "have_en s1 = have_en s \<and> en_polarity s1 = en_polarity s \<and> cpol s1 = cpol s"
    using a by (auto simp: display_bit_def split: if_splits option.splits)
  have 2: "s2 = s1" using c by (auto simp: display_flag_def split: if_splits)
  have 3: "have_en s3 = have_en s2 \<and> en_polarity s3 = en_polarity s2 \<and> cpol s3 = cpol s2"
    using f by (auto simp: display_data_def split: if_splits list.splits)
  have "count_ones d s3 = Inr s'" using g by simp
  from count_ones_frame(1-3) [OF this] 1 2 3 show ?thesis by simp
qed

lemma edge_config:
  assumes "edge x s = (outs, Inr s')"
  shows "have_en s' = have_en s \<and> en_polarity s' = en_polarity s \<and> cpol s' = cpol s"
proof -
  have "have_en (wait x s) = have_en s \<and> en_polarity (wait x s) = en_polarity s \<and>
    cpol (wait x s) = cpol s" by (simp add: wait_def)
  moreover have "have_en s' = have_en (wait x s) \<and> en_polarity s' = en_polarity (wait x s) \<and>
    cpol s' = cpol (wait x s)"
    using assms handle_bit_config [of "s_clk x" "s_data x" "s_en x" "wait x s" outs s']
    by (auto simp: edge_def find_clk_edge_def split: if_splits)
  ultimately show ?thesis by simp
qed

lemma deasserted_cong:
  "have_en s' = have_en s \<Longrightarrow> en_polarity s' = en_polarity s \<Longrightarrow>
   deasserted s' = deasserted s"
  by (simp add: deasserted_def en_asserted_def fun_eq_iff)

lemma edge_same_gate:
  assumes "edge x s = (outs, Inr s')"
  shows "qualifying s' = qualifying s" "deasserted s' = deasserted s"
  using edge_config [OF assms] qualifying_cong [of s' s] deasserted_cong [of s' s] by simp_all

lemma decode_loop_same_gate:
  assumes "decode_loop xs s = (outs, w, EndOfInput s')"
  shows "qualifying s' = qualifying s \<and> deasserted s' = deasserted s"
  using assms
proof (induction xs arbitrary: s outs w)
  case Nil
  then show ?case by simp
next
  case (Cons x xs)
  obtain o1 r where e: "edge x s = (o1, r)" by (cases "edge x s")
  show ?case
  proof (cases r)
    case (Inl err)
    then show ?thesis using Cons.prems e by simp
  next
    case (Inr s1)
    obtain o2 w2 oc where d: "decode_loop xs s1 = (o2, w2, oc)"
      by (cases "decode_loop xs s1") auto
    then have "oc = EndOfInput s'" using Cons.prems e Inr by simp
    then have "qualifying s' = qualifying s1 \<and> deasserted s' = deasserted s1"
      using Cons.IH d by simp
    then show ?thesis using edge_same_gate [of x s o1 s1] e Inr by simp
  qed
qed

subsection \<open>Samples that are not qualifying edges\<close>

text \<open>\<open>find_clk_edge\<close> reads neither \<open>samplenum\<close> nor \<open>matched0\<close> of the state it is
  handed before \<open>wait\<close> has written them.\<close>

lemma wait_wait [simp]: "wait x (wait y s) = wait x s"
  by (simp add: wait_def)

lemma edge_wait [simp]: "edge x (wait y s) = edge x s"
  by (simp add: edge_def)

lemma decode_loop_wait: "xs \<noteq> [] \<Longrightarrow> decode_loop xs (wait y s) = decode_loop xs s"
  by (cases xs) simp_all

text \<open>A sample with enable unwired or asserted that is not a qualifying edge (no clock
  match, or the other clock level) only leaves the host's fields behind.\<close>

lemma edge_ignored:
  assumes "\<not> deasserted s x" "\<not> qualifying s x"
  shows "edge x s = ([], Inr (wait x s))"
  using assms
  by (auto simp: edge_def find_clk_edge_def deasserted_def qualifying_def wait_def en_asserted_def)

lemma gate_wait [simp]:
  "qualifying (wait x s) = qualifying s" "deasserted (wait x s) = deasserted s"
  by (simp_all add: qualifying_def deasserted_def en_asserted_def wait_def fun_eq_iff)

text \<open>
  On an input without enable-deasserted samples the loop puts the records it puts on the
  qualifying edges alone, and ends in the same state up to the host's fields.
\<close>

lemma decode_loop_filter:
  assumes "\<forall>x\<in>set xs. \<not> deasserted s x"
    and "decode_loop (filter (qualifying s) xs) s = (outs, w, EndOfInput t)"
  shows "\<exists>w' t'. decode_loop xs s = (outs, w', EndOfInput t') \<and> (t' = t \<or> (\<exists>y. t' = wait y t))"
  using assms
proof (induction xs arbitrary: s outs w t)
  case Nil
  then show ?case by simp
next
  case (Cons x xs)
  have nd: "\<not> deasserted s x" and nds: "\<forall>x\<in>set xs. \<not> deasserted s x"
    using Cons.prems(1) by simp_all
  show ?case
  proof (cases "qualifying s x")
    case True
    then have f: "decode_loop (x # filter (qualifying s) xs) s = (outs, w, EndOfInput t)"
      using Cons.prems(2) by simp
    obtain o1 r where e: "edge x s = (o1, r)" by (cases "edge x s")
    show ?thesis
    proof (cases r)
      case (Inl err)
      then show ?thesis using f e by simp
    next
      case (Inr s1)
      obtain o2 w2 oc where d: "decode_loop (filter (qualifying s) xs) s1 = (o2, w2, oc)"
        by (cases "decode_loop (filter (qualifying s) xs) s1") auto
      have oc: "oc = EndOfInput t" "outs = o1 @ o2" using f e Inr d by simp_all
      have g: "qualifying s1 = qualifying s" "deasserted s1 = deasserted s"
        using edge_same_gate [of x s o1 s1] e Inr by simp_all
      have "\<exists>w' t'. decode_loop xs s1 = (o2, w', EndOfInput t') \<and> (t' = t \<or> (\<exists>y. t' = wait y t))"
        using Cons.IH [of s1 o2 w2 t] nds g d oc(1) by simp
      then show ?thesis using e Inr oc(2) by auto
    qed
  next
    case False
    have e: "edge x s = ([], Inr (wait x s))" using edge_ignored [OF nd False] .
    have f: "decode_loop (filter (qualifying s) xs) s = (outs, w, EndOfInput t)"
      using Cons.prems(2) False by simp
    have nds': "\<forall>y\<in>set xs. \<not> deasserted (wait x s) y" using nds by simp
    show ?thesis
    proof (cases "filter (qualifying s) xs = []")
      case True
      then have ts: "t = s" "outs = []" using f by simp_all
      have "decode_loop (filter (qualifying (wait x s)) xs) (wait x s) = ([], 1, EndOfInput (wait x s))"
        using True by simp
      from Cons.IH [OF nds' this] obtain w' t' where
        r: "decode_loop xs (wait x s) = ([], w', EndOfInput t')"
          "t' = wait x s \<or> (\<exists>y. t' = wait y (wait x s))"
        by blast
      then have "\<exists>y. t' = wait y t" using ts(1) by auto
      then show ?thesis using e r(1) ts(2) by auto
    next
      case False
      then have "decode_loop (filter (qualifying (wait x s)) xs) (wait x s) = (outs, w, EndOfInput t)"
        using f by (simp add: decode_loop_wait)
      from Cons.IH [OF nds' this] obtain w' t' where
        r: "decode_loop xs (wait x s) = (outs, w', EndOfInput t')"
          "t' = t \<or> (\<exists>y. t' = wait y t)"
        by blast
      then show ?thesis using e by auto
    qed
  qed
qed

text \<open>Samples that are not qualifying edges, enable-deasserted ones among them, put
  nothing and keep what the next edge's FLAG or ABORT is made of.\<close>

lemma edge_not_qualifying:
  assumes "\<not> qualifying s x"
  shows "\<exists>t. edge x s = ([], Inr t) \<and> (well_formed s \<longrightarrow> well_formed t) \<and>
     prev_one_count t = prev_one_count s \<and> ss_flag t = ss_flag s \<and>
     qualifying t = qualifying s"
proof (cases "deasserted s x")
  case False
  have "prev_one_count (wait x s) = prev_one_count s" "ss_flag (wait x s) = ss_flag s"
    by (simp_all add: wait_def)
  then show ?thesis using edge_ignored [OF False assms] by simp
next
  case True
  let ?t = "(wait x s)\<lparr>rxdata := 0, bitcount := 0, rxbits := [], rxbytes := [],
                    one_count := 0, ss_prev_clock := - 1\<rparr>"
  have e: "edge x s = ([], Inr ?t)"
    using True by (simp add: edge_def find_clk_edge_def deasserted_def wait_def en_asserted_def)
  have w: "well_formed ?t"
    unfolding well_formed_def
    by (intro conjI, simp, rule reg_inv_clearedI) (simp_all add: bit_inv_def)
  have "qualifying ?t = qualifying s"
    by (rule qualifying_cong) (simp_all add: wait_def)
  then show ?thesis using e w by (simp add: wait_def)
qed

lemma decode_loop_not_qualifying:
  assumes "\<forall>x\<in>set ys. \<not> qualifying s x"
  shows "\<exists>w t. decode_loop ys s = ([], w, EndOfInput t) \<and> (well_formed s \<longrightarrow> well_formed t) \<and>
     prev_one_count t = prev_one_count s \<and> ss_flag t = ss_flag s \<and>
     qualifying t = qualifying s"
  using assms
proof (induction ys arbitrary: s)
  case Nil
  then show ?case by simp
next
  case (Cons y ys)
  obtain s1 where e: "edge y s = ([], Inr s1)" "well_formed s \<longrightarrow> well_formed s1"
    "prev_one_count s1 = prev_one_count s" "ss_flag s1 = ss_flag s" "qualifying s1 = qualifying s"
    using edge_not_qualifying [of s y] Cons.prems by auto
  have "\<forall>x\<in>set ys. \<not> qualifying s1 x" using Cons.prems e(5) by simp
  from Cons.IH [OF this] obtain w t where
    r: "decode_loop ys s1 = ([], w, EndOfInput t)" "well_formed s1 \<longrightarrow> well_formed t"
      "prev_one_count t = prev_one_count s1" "ss_flag t = ss_flag s1" "qualifying t = qualifying s1"
    by blast
  show ?case using e r by simp
qed

section \<open>Flags and aborts on delivered inputs\<close>

lemma filter_eq_all:
  assumes "filter P xs = ys"
  shows "\<forall>y\<in>set ys. P y"
  using assms by auto

text \<open>A 0 bit on a qualifying edge restarts the run counter and marks its sample.\<close>

lemma zero_edge:
  assumes "well_formed t" "qualifying t z" "s_data z = 0"
  shows "\<exists>outs t'. edge z t = (outs, Inr t') \<and> well_formed t' \<and> one_count t' = 0 \<and>
     ss_prev_false t' = s_samplenum z \<and> qualifying t' = qualifying t"
proof -
  obtain outs t' where e: "edge z t = (outs, Inr t')" "well_formed t'"
    "qualifying t' = qualifying t"
    using edge_wf [OF assms(1,2)] assms(3) by auto
  have c: "snd (edge z t) = Inr t'" using e by simp
  have "one_count t' = 0 \<and> ss_prev_false t' = s_samplenum z"
    using c unfolding edge_wf_snd [OF assms(1,2)]
    by (auto simp: assms(3) count_ones_def shift_bit_def Let_def split: if_splits)
  then show ?thesis using e by blast
qed

text \<open>
  Where a run of 1 bits starts: at a state with the run counter at 0, or after data bits
  the last of which is a 0.
\<close>

lemma run_start:
  assumes "well_formed s" "\<forall>x\<in>set pre. qualifying s x \<and> (s_data x = 0 \<or> s_data x = 1)"
    and "pre = [] \<and> one_count s = 0 \<or> pre \<noteq> [] \<and> s_data (last pre) = 0"
  shows "\<exists>outs w s0. decode_loop pre s = (outs, w, EndOfInput s0) \<and> well_formed s0 \<and>
     one_count s0 = 0 \<and> qualifying s0 = qualifying s \<and>
     ss_prev_false s0 = (if pre = [] then ss_prev_false s else s_samplenum (last pre))"
proof (cases "pre = []")
  case True
  then show ?thesis using assms by simp
next
  case False
  then have p: "pre = butlast pre @ [last pre]" by simp
  have z: "s_data (last pre) = 0" using assms(3) False by simp
  have b: "\<forall>x\<in>set (butlast pre). s_data x = 0 \<or> s_data x = 1"
    using assms(2) by (auto dest: in_set_butlastD)
  obtain o1 w1 t where
    r: "decode_loop (butlast pre) s = (o1, w1, EndOfInput t)" "well_formed t"
    using decode_loop_wf [OF assms(1) b] by blast
  have g: "qualifying t = qualifying s" using decode_loop_same_gate [OF r(1)] by simp
  have q: "qualifying t (last pre)" using assms(2) False g by simp
  obtain o2 t' where e: "edge (last pre) t = (o2, Inr t')" "well_formed t'" "one_count t' = 0"
    "ss_prev_false t' = s_samplenum (last pre)" "qualifying t' = qualifying t"
    using zero_edge [OF r(2) q z] by blast
  have "decode_loop (butlast pre @ [last pre]) s = (o1 @ o2, w1 + 2 - 1, EndOfInput t')"
    using decode_loop_append [OF r(1), of "[last pre]"] e(1) by simp
  then have "decode_loop pre s = (o1 @ o2, w1 + 2 - 1, EndOfInput t')" using p by simp
  then show ?thesis using e g False by simp
qed

text \<open>A run of 1 bits closed by a 0 bit, on an input without enable-deasserted samples.\<close>

lemma run_closed:
  assumes "well_formed s" "\<forall>x\<in>set xs. \<not> deasserted s x"
    and "filter (qualifying s) xs = pre @ ones @ [z]"
    and "pre = [] \<and> one_count s = 0 \<or> pre \<noteq> [] \<and> s_data (last pre) = 0"
    and "\<forall>x\<in>set pre. s_data x = 0 \<or> s_data x = 1"
    and "\<forall>x\<in>set ones. s_data x = 1" "s_data z = 0"
  shows "\<exists>outs w s'. decode_loop xs s = (outs, w, EndOfInput s') \<and> well_formed s' \<and>
     qualifying s' = qualifying s \<and> prev_one_count s' = int (length ones) \<and>
     (5 < length ones \<longrightarrow>
        ss_flag s' = (if pre = [] then ss_prev_false s else s_samplenum (last pre))) \<and>
     (length ones = 6 \<longrightarrow> flag_found s' \<and> rxdata s' = 0 \<and> bitcount s' = 0 \<and> rxbits s' = []) \<and>
     (6 < length ones \<longrightarrow> \<not> flag_found s') \<and> one_count s' = 0"
proof -
  have q: "\<forall>y\<in>set (pre @ ones @ [z]). qualifying s y"
    using filter_eq_all [OF assms(3)] .
  have qp: "\<forall>x\<in>set pre. qualifying s x \<and> (s_data x = 0 \<or> s_data x = 1)"
    using q assms(5) by simp
  obtain o0 w0 s0 where
    a: "decode_loop pre s = (o0, w0, EndOfInput s0)" "well_formed s0" "one_count s0 = 0"
      "qualifying s0 = qualifying s"
      "ss_prev_false s0 = (if pre = [] then ss_prev_false s else s_samplenum (last pre))"
    using run_start [OF assms(1) qp assms(4)] by blast
  have qo: "\<forall>x\<in>set ones. qualifying s0 x \<and> s_data x = 1" using q assms(6) a(4) by simp
  have qz: "qualifying s0 z" using q a(4) by simp
  obtain o1 w1 s1 where
    b: "decode_loop (ones @ [z]) s0 = (o1, w1, EndOfInput s1)" "well_formed s1"
      "qualifying s1 = qualifying s0" "prev_one_count s1 = int (length ones)"
      "5 < length ones \<longrightarrow> ss_flag s1 = ss_prev_false s0"
      "length ones = 6 \<longrightarrow> flag_found s1 \<and> rxdata s1 = 0 \<and> bitcount s1 = 0 \<and> rxbits s1 = []"
      "6 < length ones \<longrightarrow> \<not> flag_found s1" "one_count s1 = 0"
    using run_then_zero [OF a(2,3) qo qz assms(7)] by blast
  have "decode_loop (pre @ ones @ [z]) s = (o0 @ o1, w0 + w1 - 1, EndOfInput s1)"
    using decode_loop_append [OF a(1), of "ones @ [z]"] b(1) by simp
  then have "decode_loop (filter (qualifying s) xs) s = (o0 @ o1, w0 + w1 - 1, EndOfInput s1)"
    using assms(3) by simp
  from decode_loop_filter [OF assms(2) this] obtain w' s' where
    c: "decode_loop xs s = (o0 @ o1, w', EndOfInput s')" "s' = s1 \<or> (\<exists>y. s' = wait y s1)"
    by blast
  from c(2) have d0: "well_formed s'" "qualifying s' = qualifying s1"
    using b(2) by auto
  from c(2) have d: "prev_one_count s' = prev_one_count s1" "ss_flag s' = ss_flag s1"
    "flag_found s' = flag_found s1" "rxdata s' = rxdata s1" "bitcount s' = bitcount s1"
    "rxbits s' = rxbits s1" "one_count s' = one_count s1"
    by (auto simp: wait_def)
  show ?thesis using c(1) d0 d a(4,5) b by auto
qed

text \<open>What the next qualifying edge puts for the run that was closed.\<close>

lemma decode_loop_one_fst: "fst (decode_loop [x] t) = fst (edge x t)"
  by (cases "edge x t") (auto split: sum.splits)

lemma next_edge_puts:
  assumes "well_formed s'" "\<forall>x\<in>set ys. \<not> qualifying s' x" "qualifying s' nxt"
  shows "fst (decode_loop (ys @ [nxt]) s') =
     (\<lambda>t. (if ss_prev_clock t \<noteq> - 1
            then [Ann (ss_prev_clock t) (s_samplenum nxt) ann_bit [fmt_d (the (prev_bit t))]]
            else []) @
           (if prev_one_count s' = 6
            then [Ann (ss_flag s') (s_samplenum nxt) ann_data_type [''FLAG'']]
            else if prev_one_count s' > 6
            then [Ann (ss_flag s') (s_samplenum nxt) ann_data_type [''ABORT'']]
            else []) @
           (if bitcount t = 8
            then [Ann (snd (hd (rxbits t))) (s_samplenum nxt) ann_data [fmt_02X (rxdata t)]]
            else []))
       (case snd (snd (decode_loop ys s')) of EndOfInput t \<Rightarrow> t | Raised e \<Rightarrow> s')"
proof -
  obtain w t where
    r: "decode_loop ys s' = ([], w, EndOfInput t)" "well_formed s' \<longrightarrow> well_formed t"
      "prev_one_count t = prev_one_count s'" "ss_flag t = ss_flag s'"
      "qualifying t = qualifying s'"
    using decode_loop_not_qualifying [OF assms(2)] by blast
  have wt: "well_formed t" and qt: "qualifying t nxt" using r assms(1,3) by simp_all
  have "fst (decode_loop (ys @ [nxt]) s') = fst (decode_loop [nxt] t)"
    using decode_loop_append [OF r(1), of "[nxt]"] by (simp split: prod.splits)
  then show ?thesis
    unfolding decode_loop_one_fst edge_wf_fst [OF wt qt] using r by simp
qed

lemmas gap_defs =
  gap_in_flag_run_def gap_in_abort_run_def gap_in_run_of_five_def gap_after_byte_def
  qualifying_def ann_bit_def ann_data_def ann_data_type_def

text \<open>
  Claim C1 as stated fails when an enable-deasserted sample falls inside the run: on
  \<open>gap_in_flag_run\<close> the qualifying edges carry 0, then six 1 bits, then 0, but the frame
  reset after the third 1 restarts the run counter, so the closing 0 finds a run of three;
  \<open>flag_found\<close> is not set and no FLAG annotation is put.
\<close>

theorem flag_run_with_enable_gap:
  "map s_data (filter (qualifying enabled_after_flag) (tl gap_in_flag_run))
     = [0, 1, 1, 1, 1, 1, 1, 0, 1] \<and>
   map_option flag_found (final_state (decode wired_all gap_in_flag_run Decoder_init))
     = Some False \<and>
   filter (is_type_ann ''FLAG'') (fst (decode wired_all gap_in_flag_run Decoder_init)) = []"
  by (simp add: run_defs gap_defs)

text \<open>
  Claim C1, as amended. Take any input without enable-deasserted samples (samples that are
  not qualifying edges may lie anywhere in it) whose qualifying edges carry: data bits
  ending in a 0, or nothing with the run counter at 0; then exactly six 1 bits; then a
  0. After it \<open>flag_found\<close> is set and \<open>rxdata\<close>, \<open>bitcount\<close> and \<open>rxbits\<close> are cleared, whatever
  \<open>flag_found\<close> and the register held before. The next qualifying edge, whatever samples
  come before it, puts a FLAG annotation that ends at its sample and starts at the sample
  of the 0 bit before the run (\<open>ss_prev_false\<close> of the starting state when no bit came
  before the run).
\<close>

theorem flag_detection:
  assumes "well_formed s" "\<forall>x\<in>set xs. \<not> deasserted s x"
    and "filter (qualifying s) xs = pre @ ones @ [z]"
    and "pre = [] \<and> one_count s = 0 \<or> pre \<noteq> [] \<and> s_data (last pre) = 0"
    and "\<forall>x\<in>set pre. s_data x = 0 \<or> s_data x = 1"
    and "length ones = 6" "\<forall>x\<in>set ones. s_data x = 1" "s_data z = 0"
    and "\<forall>x\<in>set ys. \<not> qualifying s x" "qualifying s nxt"
  shows "\<exists>outs w s'. decode_loop xs s = (outs, w, EndOfInput s') \<and>
     flag_found s' \<and> rxdata s' = 0 \<and> bitcount s' = 0 \<and> rxbits s' = [] \<and>
     Ann (if pre = [] then ss_prev_false s else s_samplenum (last pre)) (s_samplenum nxt)
         ann_data_type [''FLAG'']
       \<in> set (fst (decode_loop (ys @ [nxt]) s'))"
proof -
  obtain outs w s' where
    r: "decode_loop xs s = (outs, w, EndOfInput s')" "well_formed s'"
      "qualifying s' = qualifying s" "prev_one_count s' = int (length ones)"
      "5 < length ones \<longrightarrow>
        ss_flag s' = (if pre = [] then ss_prev_false s else s_samplenum (last pre))"
      "length ones = 6 \<longrightarrow> flag_found s' \<and> rxdata s' = 0 \<and> bitcount s' = 0 \<and> rxbits s' = []"
    using run_closed [OF assms(1,2,3,4,5,7,8)] by blast
  have ny: "\<forall>x\<in>set ys. \<not> qualifying s' x" and qn: "qualifying s' nxt"
    using assms(9,10) r(3) by simp_all
  have "Ann (if pre = [] then ss_prev_false s else s_samplenum (last pre)) (s_samplenum nxt)
         ann_data_type [''FLAG'']
       \<in> set (fst (decode_loop (ys @ [nxt]) s'))"
    unfolding next_edge_puts [OF r(2) ny qn] using r(4,5) assms(6) by simp
  then show ?thesis using r(1,6) assms(6) by blast
qed

theorem flag_detection_witness:
  "map_option bitcount (final_state (decode_loop (capture 16 [0, 1, 1, 1, 1, 1, 1]) after_flag))
     = Some 7 \<and>
   (\<exists>outs w s'.
      decode_loop (capture 16 [0, 1, 1, 1, 1, 1, 1, 0]) after_flag = (outs, w, EndOfInput s') \<and>
      flag_found s' \<and> rxdata s' = 0 \<and> bitcount s' = 0 \<and> rxbits s' = [] \<and>
      Ann 17 33 ann_data_type [''FLAG'']
        \<in> set (fst (decode_loop [mk_sample 32 0 1 1, mk_sample 33 1 1 1] s')))"
proof -
  have b: "map_option bitcount
      (final_state (decode_loop (capture 16 [0, 1, 1, 1, 1, 1, 1]) after_flag)) = Some 7"
    by (simp add: run_defs)
  have d: "\<forall>x\<in>set (capture 16 [0, 1, 1, 1, 1, 1, 1, 0]). \<not> deasserted after_flag x"
    by (simp add: deasserted_def after_flag_def)
  have f: "filter (qualifying after_flag) (capture 16 [0, 1, 1, 1, 1, 1, 1, 0]) =
      [mk_sample 17 1 0 1] @
      [mk_sample 19 1 1 1, mk_sample 21 1 1 1, mk_sample 23 1 1 1, mk_sample 25 1 1 1,
       mk_sample 27 1 1 1, mk_sample 29 1 1 1] @ [mk_sample 31 1 0 1]"
    by (simp add: qualifying_def after_flag_def mk_sample_def)
  have p: "[mk_sample 17 1 0 1] = [] \<and> one_count after_flag = 0 \<or>
      [mk_sample 17 1 0 1] \<noteq> [] \<and> s_data (last [mk_sample 17 1 0 1]) = 0"
    "\<forall>x\<in>set [mk_sample 17 1 0 1]. s_data x = 0 \<or> s_data x = 1"
    by (simp_all add: mk_sample_def)
  have o: "length [mk_sample 19 1 1 1, mk_sample 21 1 1 1, mk_sample 23 1 1 1,
       mk_sample 25 1 1 1, mk_sample 27 1 1 1, mk_sample 29 1 1 1] = 6"
    "\<forall>x\<in>set [mk_sample 19 1 1 1, mk_sample 21 1 1 1, mk_sample 23 1 1 1, mk_sample 25 1 1 1,
       mk_sample 27 1 1 1, mk_sample 29 1 1 1]. s_data x = 1"
    "s_data (mk_sample 31 1 0 1) = 0"
    by (simp_all add: mk_sample_def)
  have n: "\<forall>x\<in>set [mk_sample 32 0 1 1]. \<not> qualifying after_flag x"
    "qualifying after_flag (mk_sample 33 1 1 1)"
    by (simp_all add: qualifying_def after_flag_def mk_sample_def)
  have l: "s_samplenum (last [mk_sample 17 1 0 1]) = 17" "s_samplenum (mk_sample 33 1 1 1) = 33"
    by (simp_all add: mk_sample_def)
  from flag_detection [OF wf_after_flag d f p o n] b
  show ?thesis unfolding l by simp
qed




section \<open>Bit stuffing on delivered inputs\<close>

text \<open>
  Claim C2 as stated fails in two places. It says that \<open>bitcount\<close> does not change on the
  edge of a discarded 0: after a flag and the data bits of \<open>flag_then_byte\<close> the register
  holds a full byte and the run is five long; the stuffed 0 on the next edge is discarded,
  and on that edge the byte is flushed, so \<open>bitcount\<close> goes from 8 to 0. And it says that a
  0 after a run of exactly five 1s is discarded: on \<open>gap_in_run_of_five\<close> the qualifying
  edges after the flag's 0 carry five 1 bits, with an enable gap after the second; the 0
  at sample 29 finds a run of three and is shifted in, \<open>bitcount\<close> going from 3 to 4.
\<close>

theorem stuffed_zero_flush_and_gap:
  "map_option bitcount (final_state (decode_loop flag_then_byte Decoder_init)) = Some 8 \<and>
   map_option one_count (final_state (decode_loop flag_then_byte Decoder_init)) = Some 5 \<and>
   map_option bitcount
     (final_state (decode_loop (flag_then_byte @ [mk_sample 33 1 0 1]) Decoder_init)) = Some 0 \<and>
   qualifying Decoder_init (mk_sample 33 1 0 1) \<and> s_data (mk_sample 33 1 0 1) = 0 \<and>
   map s_data (filter (qualifying enabled_after_flag) (drop 7 gap_in_run_of_five))
     = [0, 1, 1, 1, 1, 1] \<and>
   qualifying enabled_after_flag (mk_sample 29 1 0 1) \<and>
   map_option bitcount (final_state (decode wired_all gap_in_run_of_five Decoder_init))
     = Some 3 \<and>
   map_option bitcount
     (final_state (decode wired_all (gap_in_run_of_five @ [mk_sample 29 1 0 1]) Decoder_init))
     = Some 4"
  by (simp add: run_defs gap_defs)

text \<open>
  Claim C2, as amended. Take any input without enable-deasserted samples whose qualifying
  edges carry data bits ending in a 0 (or nothing, with the run counter at 0) and then a
  run of 1 bits; the run counter is then the length of the run. When a 0 bit on the next
  qualifying edge closes a run of exactly five, the 0 is discarded: \<open>rxdata\<close>, \<open>bitcount\<close>
  and \<open>rxbits\<close> are left as the flush of a completed byte at the start of the same edge
  leaves them (unchanged when \<open>bitcount\<close> is not 8, cleared when it is 8). When the run is
  shorter than five and \<open>flag_found\<close> holds, the 0 is appended to that register. Every 1
  bit on a qualifying edge with \<open>flag_found\<close> is appended on arrival.
\<close>

theorem bit_unstuffing:
  assumes "well_formed s" "\<forall>x\<in>set xs. \<not> deasserted s x"
    and "filter (qualifying s) xs = pre @ ones"
    and "pre = [] \<and> one_count s = 0 \<or> pre \<noteq> [] \<and> s_data (last pre) = 0"
    and "\<forall>x\<in>set pre. s_data x = 0 \<or> s_data x = 1"
    and "\<forall>x\<in>set ones. s_data x = 1"
    and "qualifying s z" "s_data z = 0"
  shows "\<exists>outs w t outs' t'.
     decode_loop xs s = (outs, w, EndOfInput t) \<and> edge z t = (outs', Inr t') \<and>
     one_count t = int (length ones) \<and>
     (length ones = 5 \<longrightarrow>
        rxdata t' = (if bitcount t = 8 then 0 else rxdata t) \<and>
        bitcount t' = (if bitcount t = 8 then 0 else bitcount t) \<and>
        rxbits t' = (if bitcount t = 8 then [] else rxbits t) \<and>
        flag_found t' = flag_found t) \<and>
     (length ones < 5 \<and> flag_found t \<longrightarrow>
        rxdata t' = (if bitcount t = 8 then 0 else rxdata t) \<and>
        bitcount t' = (if bitcount t = 8 then 0 else bitcount t) + 1 \<and>
        rxbits t' = (if bitcount t = 8 then [] else rxbits t) @ [(0, s_samplenum z)] \<and>
        flag_found t') \<and>
     (\<forall>u y. well_formed u \<and> qualifying u y \<and> s_data y = 1 \<and> flag_found u \<longrightarrow>
        (\<exists>outs'' u'. edge y u = (outs'', Inr u') \<and>
           rxdata u' = (if bitcount u = 8 then 0 else rxdata u)
                         OR push_bit (nat (if bitcount u = 8 then 0 else bitcount u)) 1 \<and>
           bitcount u' = (if bitcount u = 8 then 0 else bitcount u) + 1 \<and>
           rxbits u' = (if bitcount u = 8 then [] else rxbits u) @ [(1, s_samplenum y)] \<and>
           one_count u' = one_count u + 1 \<and> flag_found u'))"
proof -
  have q: "\<forall>y\<in>set (pre @ ones). qualifying s y"
    using filter_eq_all [OF assms(3)] .
  have qp: "\<forall>x\<in>set pre. qualifying s x \<and> (s_data x = 0 \<or> s_data x = 1)"
    using q assms(5) by simp
  obtain o0 w0 s0 where
    a: "decode_loop pre s = (o0, w0, EndOfInput s0)" "well_formed s0" "one_count s0 = 0"
      "qualifying s0 = qualifying s"
    using run_start [OF assms(1) qp assms(4)] by blast
  have qo: "\<forall>x\<in>set ones. qualifying s0 x \<and> s_data x = 1" using q assms(6) a(4) by simp
  obtain o1 w1 s1 where
    r: "decode_loop ones s0 = (o1, w1, EndOfInput s1)" "well_formed s1"
      "qualifying s1 = qualifying s0" "one_count s1 = one_count s0 + int (length ones)"
    using ones_run [OF a(2) qo] by blast
  have "decode_loop (pre @ ones) s = (o0 @ o1, w0 + w1 - 1, EndOfInput s1)"
    using decode_loop_append [OF a(1), of ones] r(1) by simp
  then have "decode_loop (filter (qualifying s) xs) s = (o0 @ o1, w0 + w1 - 1, EndOfInput s1)"
    using assms(3) by simp
  from decode_loop_filter [OF assms(2) this] obtain w' t where
    c: "decode_loop xs s = (o0 @ o1, w', EndOfInput t)" "t = s1 \<or> (\<exists>y. t = wait y s1)"
    by blast
  from c(2) have d0: "well_formed t" "qualifying t = qualifying s1"
    using r(2) by auto
  from c(2) have d: "one_count t = one_count s1" by (auto simp: wait_def)
  have qz: "qualifying t z" using assms(7) d0(2) r(3) a(4) by simp
  have n: "one_count t = int (length ones)" using d r(4) a(3) by simp
  from edge_zero [OF d0(1) qz assms(8)] obtain outs' t' where
    z: "edge z t = (outs', Inr t')"
     "one_count t = 5 \<longrightarrow>
        rxdata t' = (if bitcount t = 8 then 0 else rxdata t) \<and>
        bitcount t' = (if bitcount t = 8 then 0 else bitcount t) \<and>
        rxbits t' = (if bitcount t = 8 then [] else rxbits t) \<and>
        flag_found t' = flag_found t"
     "one_count t < 5 \<and> flag_found t \<longrightarrow>
        rxdata t' = (if bitcount t = 8 then 0 else rxdata t) \<and>
        bitcount t' = (if bitcount t = 8 then 0 else bitcount t) + 1 \<and>
        rxbits t' = (if bitcount t = 8 then [] else rxbits t) @ [(0, s_samplenum z)] \<and>
        flag_found t'"
    by blast
  have e: "length ones = 5 \<longrightarrow> one_count t = 5" "length ones < 5 \<longrightarrow> one_count t < 5"
    using n by simp_all
  show ?thesis
    apply (intro exI conjI)
         apply (rule c(1))
        apply (rule z(1))
       apply (rule n)
    using z(2) e(1) apply blast
    using z(3) e(2) apply blast
    using edge_one_shift apply blast
    done
qed

lemma final_state_EndOfInput:
  "decode_loop xs s = (outs, w, EndOfInput t) \<Longrightarrow> final_state (decode_loop xs s) = Some t"
  by simp

theorem bit_unstuffing_witness:
  "(\<exists>outs w t outs' t'.
      decode_loop (capture 16 [1, 1, 1, 1, 1] @ [mk_sample 26 0 0 1]) after_flag
        = (outs, w, EndOfInput t) \<and>
      edge (mk_sample 27 1 0 1) t = (outs', Inr t') \<and>
      flag_found t \<and> one_count t = 5 \<and> bitcount t = 5 \<and> rxdata t = 31 \<and>
      rxdata t' = 31 \<and> bitcount t' = 5 \<and> rxbits t' = rxbits t) \<and>
   (\<exists>outs w t outs' t'.
      decode_loop (capture 16 [1, 1] @ [mk_sample 20 0 0 1]) after_flag
        = (outs, w, EndOfInput t) \<and>
      edge (mk_sample 21 1 0 1) t = (outs', Inr t') \<and>
      flag_found t \<and> one_count t = 2 \<and> bitcount t = 2 \<and>
      bitcount t' = 3 \<and> rxbits t' = rxbits t @ [(0, 21)])"
proof -
  have i: "[] = [] \<and> one_count after_flag = 0 \<or> [] \<noteq> [] \<and> s_data (last []) = 0"
    "\<forall>x\<in>set ([]::sample list). s_data x = 0 \<or> s_data x = 1"
    by (simp_all add: after_flag_def)
  have q: "\<And>n. qualifying after_flag (mk_sample n 1 0 1)" "\<And>n. s_data (mk_sample n 1 0 1) = 0"
    "\<And>n. s_samplenum (mk_sample n 1 0 1) = n"
    by (simp_all add: qualifying_def after_flag_def mk_sample_def)
  have d5: "\<forall>x\<in>set (capture 16 [1, 1, 1, 1, 1] @ [mk_sample 26 0 0 1]). \<not> deasserted after_flag x"
    by (simp add: deasserted_def after_flag_def)
  have f5: "filter (qualifying after_flag) (capture 16 [1, 1, 1, 1, 1] @ [mk_sample 26 0 0 1]) =
      [] @ [mk_sample 17 1 1 1, mk_sample 19 1 1 1, mk_sample 21 1 1 1, mk_sample 23 1 1 1,
            mk_sample 25 1 1 1]"
    by (simp add: qualifying_def after_flag_def mk_sample_def)
  have o5: "\<forall>x\<in>set [mk_sample 17 1 1 1, mk_sample 19 1 1 1, mk_sample 21 1 1 1,
      mk_sample 23 1 1 1, mk_sample 25 1 1 1]. s_data x = 1"
    by (simp add: mk_sample_def)
  have v5: "map_option (\<lambda>t. (flag_found t, bitcount t, rxdata t))
      (final_state (decode_loop (capture 16 [1, 1, 1, 1, 1] @ [mk_sample 26 0 0 1]) after_flag))
      = Some (True, 5, 31)"
    by (simp add: run_defs)
  from bit_unstuffing [OF wf_after_flag d5 f5 i o5 q(1,2), of 27] obtain outs w t outs' t' where
    r5: "decode_loop (capture 16 [1, 1, 1, 1, 1] @ [mk_sample 26 0 0 1]) after_flag
        = (outs, w, EndOfInput t)"
      "edge (mk_sample 27 1 0 1) t = (outs', Inr t')" "one_count t = 5"
      "rxdata t' = (if bitcount t = 8 then 0 else rxdata t)"
      "bitcount t' = (if bitcount t = 8 then 0 else bitcount t)"
      "rxbits t' = (if bitcount t = 8 then [] else rxbits t)"
    by auto
  have t5: "flag_found t" "bitcount t = 5" "rxdata t = 31"
    using v5 final_state_EndOfInput [OF r5(1)] by simp_all
  have part5: "\<exists>outs w t outs' t'.
      decode_loop (capture 16 [1, 1, 1, 1, 1] @ [mk_sample 26 0 0 1]) after_flag
        = (outs, w, EndOfInput t) \<and>
      edge (mk_sample 27 1 0 1) t = (outs', Inr t') \<and>
      flag_found t \<and> one_count t = 5 \<and> bitcount t = 5 \<and> rxdata t = 31 \<and>
      rxdata t' = 31 \<and> bitcount t' = 5 \<and> rxbits t' = rxbits t"
    using r5 t5 by auto
  have d2: "\<forall>x\<in>set (capture 16 [1, 1] @ [mk_sample 20 0 0 1]). \<not> deasserted after_flag x"
    by (simp add: deasserted_def after_flag_def)
  have f2: "filter (qualifying after_flag) (capture 16 [1, 1] @ [mk_sample 20 0 0 1]) =
      [] @ [mk_sample 17 1 1 1, mk_sample 19 1 1 1]"
    by (simp add: qualifying_def after_flag_def mk_sample_def)
  have o2: "\<forall>x\<in>set [mk_sample 17 1 1 1, mk_sample 19 1 1 1]. s_data x = 1"
    by (simp add: mk_sample_def)
  have v2: "map_option (\<lambda>t. (flag_found t, bitcount t))
      (final_state (decode_loop (capture 16 [1, 1] @ [mk_sample 20 0 0 1]) after_flag))
      = Some (True, 2)"
    by (simp add: run_defs)
  from bit_unstuffing [OF wf_after_flag d2 f2 i o2 q(1,2), of 21] obtain outs w t outs' t' where
    r2: "decode_loop (capture 16 [1, 1] @ [mk_sample 20 0 0 1]) after_flag
        = (outs, w, EndOfInput t)"
      "edge (mk_sample 21 1 0 1) t = (outs', Inr t')" "one_count t = 2"
      "flag_found t \<longrightarrow>
        bitcount t' = (if bitcount t = 8 then 0 else bitcount t) + 1 \<and>
        rxbits t' = (if bitcount t = 8 then [] else rxbits t) @ [(0, s_samplenum (mk_sample 21 1 0 1))]"
    by auto
  have t2: "flag_found t" "bitcount t = 2"
    using v2 final_state_EndOfInput [OF r2(1)] by simp_all
  have part2: "\<exists>outs w t outs' t'.
      decode_loop (capture 16 [1, 1] @ [mk_sample 20 0 0 1]) after_flag
        = (outs, w, EndOfInput t) \<and>
      edge (mk_sample 21 1 0 1) t = (outs', Inr t') \<and>
      flag_found t \<and> one_count t = 2 \<and> bitcount t = 2 \<and>
      bitcount t' = 3 \<and> rxbits t' = rxbits t @ [(0, 21)]"
    using r2 t2 q(3) by auto
  show ?thesis using part5 part2 by blast
qed

section \<open>Byte emission on delivered inputs\<close>





section \<open>The register invariant on a run that shifts and flushes\<close>

lemma after_byte_reached:
  "final_state (decode_loop flag_then_byte Decoder_init) = Some after_byte"
  by (simp add: run_defs after_byte_def)

lemma wf_after_byte: "well_formed after_byte"
  by (simp add: well_formed_def reg_inv_def bit_inv_def after_byte_def)

text \<open>
  Claim C10. The invariant \<open>0 \<le> bitcount \<le> 8\<close>, \<open>bitcount == len(rxbits)\<close>,
  \<open>0 \<le> rxdata < 2 ** bitcount\<close> (\<open>reg_inv\<close>, a part of \<open>well_formed\<close>) holds after \<open>reset\<close> and
  is kept, for data bits 0 and 1, by \<open>shift_bit\<close> where \<open>handle_bit\<close> calls it (after the
  flush, so with fewer than eight bits held), by \<open>handle_bit\<close>, by \<open>find_clk_edge\<close>, by the
  loop and by \<open>decode\<close>, none of which raises. When the flush branch runs, \<open>rxbits\<close>
  holds eight entries and \<open>rxbits[0][1]\<close> is read without an IndexError.
\<close>

theorem register_invariant:
  assumes "well_formed s" "d = 0 \<or> d = 1" "\<forall>x\<in>set samples. s_data x = 0 \<or> s_data x = 1"
  shows "reg_inv (reset s) \<and>
     (bitcount s < 8 \<longrightarrow> (\<exists>s'. shift_bit d s = Inr s' \<and> reg_inv s')) \<and>
     (\<exists>outs s'. handle_bit clk d en s = (outs, Inr s') \<and> well_formed s') \<and>
     (\<exists>outs s'. find_clk_edge clk d en first s = (outs, Inr s') \<and> well_formed s') \<and>
     (\<exists>outs w s'. decode_loop samples s = (outs, w, EndOfInput s') \<and> well_formed s') \<and>
     (has_channel 0 \<or> has_channel 1 \<longrightarrow>
        (\<exists>outs w s'. decode has_channel samples s = (outs, w, EndOfInput s') \<and> well_formed s')) \<and>
     (bitcount s = 8 \<longrightarrow>
        length (rxbits s) = 8 \<and>
        display_data s =
          ([Ann (snd (rxbits s ! 0)) (samplenum s) ann_data [fmt_02X (rxdata s)]],
           Inr (s\<lparr>rxdata := 0, bitcount := 0, rxbits := []\<rparr>)))"
proof -
  have r: "reg_inv s" using assms(1) by (simp add: well_formed_def)
  have l: "bitcount s = 8 \<Longrightarrow> length (rxbits s) = 8"
    using reg_invD(3) [OF r] by auto
  have f: "bitcount s = 8 \<longrightarrow>
        length (rxbits s) = 8 \<and>
        display_data s =
          ([Ann (snd (rxbits s ! 0)) (samplenum s) ann_data [fmt_02X (rxdata s)]],
           Inr (s\<lparr>rxdata := 0, bitcount := 0, rxbits := []\<rparr>))"
  proof
    assume b: "bitcount s = 8"
    then obtain y ys where "rxbits s = y # ys" using l by (cases "rxbits s") auto
    then show "length (rxbits s) = 8 \<and>
        display_data s =
          ([Ann (snd (rxbits s ! 0)) (samplenum s) ann_data [fmt_02X (rxdata s)]],
           Inr (s\<lparr>rxdata := 0, bitcount := 0, rxbits := []\<rparr>))"
      using b l by (simp add: display_data_def)
  qed
  show ?thesis
    using reg_inv_reset [of s] shift_bit_inv [OF r _ assms(2)]
      handle_bit_wf [OF assms(1,2), of clk en] find_clk_edge_wf [OF assms(1,2), of clk en first]
      decode_loop_wf [OF assms(1,3)] decode_wf [OF assms(1,3), of has_channel] f
    by blast
qed

theorem register_invariant_witness:
  "bitcount after_byte = 8 \<and> flag_found after_byte \<and> length (rxbits after_byte) = 8 \<and>
   display_data after_byte =
     ([Ann 17 31 ann_data [''F8'']],
      Inr (after_byte\<lparr>rxdata := 0, bitcount := 0, rxbits := []\<rparr>)) \<and>
   (\<exists>outs s'. handle_bit 1 1 1 after_byte = (outs, Inr s') \<and> well_formed s') \<and>
   (\<exists>outs w s'.
      decode_loop (capture 32 [0, 1, 0, 1, 1, 0, 0, 1, 0, 1]) after_byte
        = (outs, w, EndOfInput s') \<and>
      well_formed s' \<and>
      filter is_data_ann outs = [Ann 17 33 ann_data [''F8''], Ann 35 51 ann_data [''4D'']]) \<and>
   (\<exists>outs w s'.
      decode wired_all enable_block Decoder_init = (outs, w, EndOfInput s') \<and>
      well_formed s' \<and> filter is_data_ann outs = [Ann 17 33 ann_data [''F8'']])"
proof -
  have b: "bitcount after_byte = 8" "flag_found after_byte" "samplenum after_byte = 31"
    "snd (rxbits after_byte ! 0) = 17" "fmt_02X (rxdata after_byte) = ''F8''"
    by (simp_all add: after_byte_def fmt_02X_def hex_digits.simps digit_char_def)
  have d1: "(1::int) = 0 \<or> (1::int) = 1" by simp
  have s1: "\<forall>x\<in>set (capture 32 [0, 1, 0, 1, 1, 0, 0, 1, 0, 1]). s_data x = 0 \<or> s_data x = 1"
    by (simp add: mk_sample_def)
  have s2: "\<forall>x\<in>set enable_block. s_data x = 0 \<or> s_data x = 1"
    by (simp add: enable_block_def flag_then_byte_def mk_sample_def)
  have c: "wired_all 0 \<or> wired_all 1" by (simp add: wired_all_def)
  have v1: "filter is_data_ann
      (fst (decode_loop (capture 32 [0, 1, 0, 1, 1, 0, 0, 1, 0, 1]) after_byte))
      = [Ann 17 33 ann_data [''F8''], Ann 35 51 ann_data [''4D'']]"
    by (simp add: run_defs after_byte_def ann_bit_def ann_data_def ann_data_type_def
        fmt_02X_def hex_digits.simps digit_char_def)
  have v2: "filter is_data_ann (fst (decode wired_all enable_block Decoder_init))
      = [Ann 17 33 ann_data [''F8'']]"
    by (simp add: run_defs enable_block_def ann_bit_def ann_data_def ann_data_type_def
        fmt_02X_def hex_digits.simps digit_char_def)
  note a = register_invariant [OF wf_after_byte d1 s1, of 1 1 False wired_all]
  note i = register_invariant [OF wf_Decoder_init d1 s2, of 1 1 False wired_all]
  from a have a1: "length (rxbits after_byte) = 8"
    "display_data after_byte =
     ([Ann 17 31 ann_data [''F8'']],
      Inr (after_byte\<lparr>rxdata := 0, bitcount := 0, rxbits := []\<rparr>))"
    using b by simp_all
  from a have a2: "\<exists>outs s'. handle_bit 1 1 1 after_byte = (outs, Inr s') \<and> well_formed s'"
    by blast
  from a obtain outs w s' where
    a3: "decode_loop (capture 32 [0, 1, 0, 1, 1, 0, 0, 1, 0, 1]) after_byte
        = (outs, w, EndOfInput s')" "well_formed s'"
    by blast
  have a4: "filter is_data_ann outs = [Ann 17 33 ann_data [''F8''], Ann 35 51 ann_data [''4D'']]"
    using v1 a3(1) by simp
  from i c obtain outs2 w2 s2' where
    i1: "decode wired_all enable_block Decoder_init = (outs2, w2, EndOfInput s2')"
      "well_formed s2'"
    by blast
  have i2: "filter is_data_ann outs2 = [Ann 17 33 ann_data [''F8'']]"
    using v2 i1(1) by simp
  show ?thesis using b(1,2) a1 a2 a3 a4 i1 i2 by blast
qed

end
